theory Spec2Isabelle
  imports Main "HOL-Library.Word"
begin

section \<open>The Aptos hardware-wallet client (src/src/Aptos.ts)\<close>

text \<open>
  The class \<open>Aptos\<close> talks to a signing device through a transport object. Buffers are
  lists of bytes, JavaScript numbers that stay integral are \<open>int\<close>, and a number that may
  be \<open>NaN\<close> (the result of arithmetic on \<open>undefined\<close>) is an \<open>int option\<close> with
  \<open>None\<close> for \<open>NaN\<close>. Every \<open>throw\<close> is a value \<open>Inl e\<close> of a sum type.
\<close>

subsection \<open>Constants\<close>

type_synonym byte = "8 word"

definition MAX_APDU_LEN :: nat where "MAX_APDU_LEN = 255"
definition P1_NON_CONFIRM :: int where "P1_NON_CONFIRM = 0x00"
definition P1_CONFIRM :: int where "P1_CONFIRM = 0x01"
definition P1_START :: int where "P1_START = 0x00"
definition P2_MORE :: int where "P2_MORE = 0x80"
definition P2_LAST :: int where "P2_LAST = 0x00"
definition LEDGER_CLA :: int where "LEDGER_CLA = 0x5b"
definition INS_GET_VERSION :: int where "INS_GET_VERSION = 0x03"
definition INS_GET_PUBLIC_KEY :: int where "INS_GET_PUBLIC_KEY = 0x05"
definition INS_SIGN_TX :: int where "INS_SIGN_TX = 0x06"

text \<open>\<open>StatusCodes.OK\<close> of the imported package \<open>@ledgerhq/errors\<close>.\<close>

definition StatusCodes_OK :: nat where "StatusCodes_OK = 0x9000"

subsection \<open>Errors\<close>

text \<open>
  \<open>Error msg\<close> is \<open>new Error(msg)\<close>, thrown by \<open>throwOnFailure\<close>; \<open>RangeError\<close> is
  Node's \<open>ERR_OUT_OF_RANGE\<close>, thrown by the \<open>Buffer\<close> readers and writers;
  \<open>Thrown msg\<close> is whatever a collaborator (the transport, the path parser) throws.
\<close>

datatype error = Error string | RangeError | Thrown string

subsection \<open>Node buffers\<close>

text \<open>A JavaScript number that may be \<open>NaN\<close>.\<close>

type_synonym number = "int option"

definition plus_number :: "number \<Rightarrow> number \<Rightarrow> number" where
  "plus_number a b = (case a of None \<Rightarrow> None | Some x \<Rightarrow> (case b of None \<Rightarrow> None | Some y \<Rightarrow> Some (x + y)))"

text \<open>
  \<open>buf[i]\<close> used as a number: the byte, or \<open>undefined\<close> out of range, which every
  caller below feeds to \<open>+\<close> or \<open>-\<close>, where it is \<open>NaN\<close>.
\<close>

definition byteAt :: "byte list \<Rightarrow> nat \<Rightarrow> number" where
  "byteAt buf i = (if i < length buf then Some (uint (buf ! i)) else None)"

text \<open>
  The index normalisation of \<open>Buffer.prototype.subarray\<close>: \<open>NaN\<close> is 0, a negative
  index counts from the end and stops at 0, an index past the end is the length.
\<close>

definition adjustOffset :: "number \<Rightarrow> nat \<Rightarrow> nat" where
  "adjustOffset off len =
     (case off of
        None \<Rightarrow> 0
      | Some i \<Rightarrow> if i < 0 then nat (i + int len) else min (nat i) len)"

text \<open>\<open>buf.subarray(start, end)\<close>; empty when the adjusted end is not after the start.\<close>

definition subarray :: "'a list \<Rightarrow> number \<Rightarrow> number \<Rightarrow> 'a list" where
  "subarray buf start end =
     (let s = adjustOffset start (length buf);
          e = adjustOffset end (length buf)
      in take (e - s) (drop s buf))"

text \<open>\<open>buf.subarray(start)\<close>: the end defaults to the length.\<close>

definition subarray_from :: "'a list \<Rightarrow> number \<Rightarrow> 'a list" where
  "subarray_from buf start = drop (adjustOffset start (length buf)) buf"

definition alloc :: "nat \<Rightarrow> byte list" where
  "alloc n = replicate n 0"

definition writeUInt8 :: "byte list \<Rightarrow> int \<Rightarrow> nat \<Rightarrow> error + byte list" where
  "writeUInt8 buf v off =
     (if v > 0xff \<or> v < 0 then Inl RangeError
      else if length buf < off + 1 then Inl RangeError
      else Inr (buf[off := word_of_int v]))"

definition writeUInt32BE :: "byte list \<Rightarrow> int \<Rightarrow> nat \<Rightarrow> error + byte list" where
  "writeUInt32BE buf v off =
     (if v > 0xffffffff \<or> v < 0 then Inl RangeError
      else if length buf < off + 4 then Inl RangeError
      else Inr (buf[off := word_of_int (v div 2 ^ 24),
                    off + 1 := word_of_int (v div 2 ^ 16),
                    off + 2 := word_of_int (v div 2 ^ 8),
                    off + 3 := word_of_int v]))"

definition readUInt16BE :: "byte list \<Rightarrow> int \<Rightarrow> error + nat" where
  "readUInt16BE buf off =
     (if off < 0 \<or> int (length buf) < off + 2 then Inl RangeError
      else Inr (unat (buf ! nat off) * 2 ^ 8 + unat (buf ! (nat off + 1))))"

subsection \<open>serializePath\<close>

text \<open>The loop \<open>for (const [i, num] of path.entries())\<close> over the buffer being filled.\<close>

fun writeEntries :: "byte list \<Rightarrow> (nat \<times> int) list \<Rightarrow> error + byte list" where
  "writeEntries buf [] = Inr buf"
| "writeEntries buf ((i, num) # es) =
     (case writeUInt32BE buf num (1 + i * 4) of
        Inl e \<Rightarrow> Inl e
      | Inr buf' \<Rightarrow> writeEntries buf' es)"

definition serializePath :: "int list \<Rightarrow> error + byte list" where
  "serializePath path =
     (let buf = alloc (1 + length path * 4) in
      case writeUInt8 buf (int (length path)) 0 of
        Inl e \<Rightarrow> Inl e
      | Inr buf' \<Rightarrow> writeEntries buf' (enumerate 0 path))"

text \<open>The four bytes of an index, most significant first.\<close>

definition be32 :: "int \<Rightarrow> byte list" where
  "be32 v = [word_of_int (v div 2 ^ 24), word_of_int (v div 2 ^ 16),
             word_of_int (v div 2 ^ 8), word_of_int v]"

definition is_u32 :: "int \<Rightarrow> bool" where
  "is_u32 v \<longleftrightarrow> 0 \<le> v \<and> v \<le> 0xffffffff"

subsection \<open>The transport\<close>

text \<open>
  One call \<open>transport.send(cla, ins, p1, p2, data, statusList)\<close>. \<open>p1\<close> is the
  JavaScript number handed over, which \<open>p1++\<close> never wraps.
\<close>

record apdu =
  apdu_cla :: int
  apdu_ins :: int
  apdu_p1 :: int
  apdu_p2 :: int
  apdu_data :: "byte list"
  apdu_statusList :: "nat list"

text \<open>
  The transport is the imported \<open>@ledgerhq/hw-transport\<close>, a parameter here: a
  deterministic device answers the last frame as a function of all frames it was sent,
  oldest first, either with a reply buffer or by throwing. The list of frames sent so far
  is the state that \<open>send\<close> threads.
\<close>

type_synonym transport = "apdu list \<Rightarrow> error + byte list"

definition send :: "transport \<Rightarrow> apdu list \<Rightarrow> apdu \<Rightarrow> apdu list \<times> (error + byte list)" where
  "send transport log frame = (log @ [frame], transport (log @ [frame]))"

subsection \<open>throwOnFailure\<close>

definition hexDigit :: "nat \<Rightarrow> char" where
  "hexDigit d = ''0123456789abcdef'' ! d"

text \<open>\<open>Number.prototype.toString(16)\<close> on a non-negative integer.\<close>

fun toString16 :: "nat \<Rightarrow> string" where
  "toString16 n = (if n < 16 then [hexDigit n] else toString16 (n div 16) @ [hexDigit (n mod 16)])"

declare toString16.simps [simp del]

definition throwOnFailure :: "byte list \<Rightarrow> error + unit" where
  "throwOnFailure reply =
     (case readUInt16BE reply (int (length reply) - 2) of
        Inl e \<Rightarrow> Inl e
      | Inr status \<Rightarrow>
          if status \<noteq> StatusCodes_OK
          then Inl (Error (''Failure with status code: 0x'' @ toString16 status))
          else Inr ())"

subsection \<open>sendToDevice\<close>

text \<open>
  The \<open>while\<close> loop of \<open>sendToDevice\<close>: its variables are the frames sent so far,
  \<open>payloadOffset\<close> and \<open>p1\<close>. It ends at the first throw, or when at most
  \<open>MAX_APDU_LEN\<close> bytes remain.
\<close>

function sendToDevice_loop ::
  "transport \<Rightarrow> int \<Rightarrow> byte list \<Rightarrow> apdu list \<Rightarrow> nat \<Rightarrow> int \<Rightarrow> apdu list \<times> (error + nat \<times> int)" where
  "sendToDevice_loop transport instruction payload log payloadOffset p1 =
     (if int (length payload) - int payloadOffset > int MAX_APDU_LEN
      then
        let buf = subarray payload (Some (int payloadOffset)) (Some (int (payloadOffset + MAX_APDU_LEN)));
            sent = send transport log
                     \<lparr>apdu_cla = LEDGER_CLA, apdu_ins = instruction, apdu_p1 = p1, apdu_p2 = P2_MORE,
                      apdu_data = buf, apdu_statusList = [StatusCodes_OK]\<rparr>
        in (case snd sent of
              Inl e \<Rightarrow> (fst sent, Inl e)
            | Inr reply \<Rightarrow>
                (case throwOnFailure reply of
                   Inl e \<Rightarrow> (fst sent, Inl e)
                 | Inr _ \<Rightarrow>
                     sendToDevice_loop transport instruction payload (fst sent)
                       (payloadOffset + MAX_APDU_LEN) (p1 + 1)))
      else (log, Inr (payloadOffset, p1)))"
  by pat_completeness auto
termination
  by (relation "measure (\<lambda>(transport, instruction, payload, log, payloadOffset, p1).
                  length payload - payloadOffset)")
     (auto simp: MAX_APDU_LEN_def)

declare sendToDevice_loop.simps [simp del]

text \<open>
  The rest of \<open>sendToDevice\<close>, after the loop: the final frame with the caller's \<open>p2\<close>,
  the status check and the reply without its last two bytes. \<open>chunked\<close> is what the loop
  left: the frames sent, and either its throw or \<open>payloadOffset\<close> and \<open>p1\<close>.
\<close>

definition sendToDevice_final ::
  "transport \<Rightarrow> int \<Rightarrow> int \<Rightarrow> byte list \<Rightarrow> apdu list \<times> (error + nat \<times> int) \<Rightarrow>
   apdu list \<times> (error + byte list)" where
  "sendToDevice_final transport instruction p2 payload chunked =
     (case snd chunked of
        Inl e \<Rightarrow> (fst chunked, Inl e)
      | Inr (payloadOffset, p1) \<Rightarrow>
          let buf = subarray_from payload (Some (int payloadOffset));
              sent = send transport (fst chunked)
                       \<lparr>apdu_cla = LEDGER_CLA, apdu_ins = instruction, apdu_p1 = p1, apdu_p2 = p2,
                        apdu_data = buf, apdu_statusList = [StatusCodes_OK]\<rparr>
          in (case snd sent of
                Inl e \<Rightarrow> (fst sent, Inl e)
              | Inr reply \<Rightarrow>
                  (case throwOnFailure reply of
                     Inl e \<Rightarrow> (fst sent, Inl e)
                   | Inr _ \<Rightarrow>
                       (fst sent, Inr (subarray reply (Some 0) (Some (int (length reply) - 2)))))))"

definition sendToDevice ::
  "transport \<Rightarrow> apdu list \<Rightarrow> int \<Rightarrow> int \<Rightarrow> int \<Rightarrow> byte list \<Rightarrow> apdu list \<times> (error + byte list)" where
  "sendToDevice transport log instruction p1 p2 payload =
     sendToDevice_final transport instruction p2 payload
       (if length payload > MAX_APDU_LEN
        then sendToDevice_loop transport instruction payload log 0 p1
        else (log, Inr (0, p1)))"

subsection \<open>pathToBuffer\<close>

text \<open>\<open>String.prototype.split\<close> on a one-character separator, \<open>Array.prototype.join\<close>
  and \<open>String.prototype.endsWith\<close>.\<close>

fun split_str :: "char \<Rightarrow> string \<Rightarrow> string list" where
  "split_str sep [] = [[]]"
| "split_str sep (c # cs) =
     (if c = sep then [] # split_str sep cs
      else (case split_str sep cs of
              [] \<Rightarrow> [[c]]
            | w # ws \<Rightarrow> (c # w) # ws))"

fun join_str :: "string \<Rightarrow> string list \<Rightarrow> string" where
  "join_str sep [] = []"
| "join_str sep [w] = w"
| "join_str sep (w # v # ws) = w @ sep @ join_str sep (v # ws)"

definition endsWith :: "string \<Rightarrow> string \<Rightarrow> bool" where
  "endsWith s suf \<longleftrightarrow> length suf \<le> length s \<and> drop (length s - length suf) s = suf"

text \<open>The apostrophe, the hardened marker that \<open>pathToBuffer\<close> appends.\<close>

definition apostrophe :: string where
  "apostrophe = [CHR 0x27]"

text \<open>The arrow function of the \<open>map\<close> step.\<close>

definition promote :: "string \<Rightarrow> string" where
  "promote v = (if endsWith v apostrophe \<or> endsWith v ''h'' then v else v @ apostrophe)"

text \<open>The elements of the path after \<open>split\<close>, \<open>filter\<close> and \<open>map\<close>, before \<open>join\<close>.\<close>

definition pathElements :: "string \<Rightarrow> string list" where
  "pathElements originalPath =
     map promote (filter (\<lambda>v. v \<noteq> ''m'') (split_str CHR ''/'' originalPath))"

text \<open>
  \<open>fromString\<close> stands for \<open>BIPPath.fromString(path).toPathArray()\<close> of the imported
  package \<open>bip32-path\<close>: the list of indices, or a throw.
\<close>

definition pathToBuffer :: "(string \<Rightarrow> error + int list) \<Rightarrow> string \<Rightarrow> error + byte list" where
  "pathToBuffer fromString originalPath =
     (let path = join_str ''/'' (pathElements originalPath) in
      case fromString path of
        Inl e \<Rightarrow> Inl e
      | Inr pathNums \<Rightarrow> serializePath pathNums)"

subsection \<open>publicKeyToAddress\<close>

text \<open>
  \<open>sha3\<close> stands for \<open>sha3_256\<close> of the imported package \<open>@noble/hashes\<close>, as a
  function of the whole message. The hash object collects what \<open>update\<close> is given and
  \<open>digest\<close> hashes it; the string \<open>"\x00"\<close> is the one byte 0.
\<close>

definition hash_create :: "byte list" where
  "hash_create = []"

definition hash_update :: "byte list \<Rightarrow> byte list \<Rightarrow> byte list" where
  "hash_update h bytes = h @ bytes"

definition hash_digest :: "(byte list \<Rightarrow> byte list) \<Rightarrow> byte list \<Rightarrow> byte list" where
  "hash_digest sha3 h = sha3 h"

definition publicKeyToAddress :: "(byte list \<Rightarrow> byte list) \<Rightarrow> byte list \<Rightarrow> byte list" where
  "publicKeyToAddress sha3 pubKey =
     (let hash = hash_create;
          hash = hash_update hash pubKey;
          hash = hash_update hash [0x00]
      in hash_digest sha3 hash)"

text \<open>\<open>buf.toString("hex")\<close>: two lower-case digits per byte.\<close>

definition toString_hex :: "byte list \<Rightarrow> string" where
  "toString_hex buf = concat (map (\<lambda>b. [hexDigit (unat b div 16), hexDigit (unat b mod 16)]) buf)"

subsection \<open>getAddress and signTransaction\<close>

record AddressData =
  publicKey :: "byte list"
  chainCode :: "byte list"
  address :: string

text \<open>
  The cursor \<open>offset\<close> of \<open>getAddress\<close> is written out step by step: \<open>offset1\<close> after
  \<open>++offset\<close>, \<open>offset2\<close> after \<open>offset += pubKeyLen\<close>, \<open>offset3\<close> after the second
  \<open>++offset\<close>. Arguments are evaluated left to right.
\<close>

definition getAddress ::
  "(string \<Rightarrow> error + int list) \<Rightarrow> (byte list \<Rightarrow> byte list) \<Rightarrow> transport \<Rightarrow> apdu list \<Rightarrow>
   string \<Rightarrow> bool \<Rightarrow> apdu list \<times> (error + AddressData)" where
  "getAddress fromString sha3 transport log path display =
     (case pathToBuffer fromString path of
        Inl e \<Rightarrow> (log, Inl e)
      | Inr pathBuffer \<Rightarrow>
          let exchange = sendToDevice transport log INS_GET_PUBLIC_KEY
                           (if display then P1_CONFIRM else P1_NON_CONFIRM) P2_LAST pathBuffer
          in (case snd exchange of
                Inl e \<Rightarrow> (fst exchange, Inl e)
              | Inr responseBuffer \<Rightarrow>
                  let offset = Some 1;
                      pubKeyLen = plus_number (byteAt (subarray responseBuffer (Some 0) offset) 0) (Some (- 1));
                      offset1 = plus_number offset (Some 1);
                      offset2 = plus_number offset1 pubKeyLen;
                      pubKeyBuffer = subarray responseBuffer offset1 offset2;
                      offset3 = plus_number offset2 (Some 1);
                      chainCodeLen = byteAt (subarray responseBuffer offset2 offset3) 0;
                      chainCodeBuffer = subarray responseBuffer offset3 (plus_number offset3 chainCodeLen);
                      addr = ''0x'' @ toString_hex (publicKeyToAddress sha3 pubKeyBuffer)
                  in (fst exchange,
                      Inr \<lparr>publicKey = pubKeyBuffer, chainCode = chainCodeBuffer, address = addr\<rparr>)))"

record SignResult =
  signature :: "byte list"

definition signTransaction ::
  "(string \<Rightarrow> error + int list) \<Rightarrow> transport \<Rightarrow> apdu list \<Rightarrow> string \<Rightarrow> byte list \<Rightarrow>
   apdu list \<times> (error + SignResult)" where
  "signTransaction fromString transport log path txBuffer =
     (case pathToBuffer fromString path of
        Inl e \<Rightarrow> (log, Inl e)
      | Inr pathBuffer \<Rightarrow>
          let first = sendToDevice transport log INS_SIGN_TX P1_START P2_MORE pathBuffer
          in (case snd first of
                Inl e \<Rightarrow> (fst first, Inl e)
              | Inr _ \<Rightarrow>
                  let second = sendToDevice transport (fst first) INS_SIGN_TX 1 P2_LAST txBuffer
                  in (case snd second of
                        Inl e \<Rightarrow> (fst second, Inl e)
                      | Inr responseBuffer \<Rightarrow>
                          let signatureLen = byteAt responseBuffer 0;
                              signatureBuffer = subarray responseBuffer (Some 1)
                                                  (plus_number (Some 1) signatureLen)
                          in (fst second, Inr \<lparr>signature = signatureBuffer\<rparr>))))"

subsection \<open>The framing and the exchange as the specification words them\<close>

text \<open>
  \<open>ApduFramer\<close> follows section 4.2 of the specification, not the source: while more
  than the frame maximum remains, a frame with the next 255 bytes and the "more" marker,
  \<open>p1\<close> going up by one; then one final frame with what remains and the caller's \<open>p2\<close>.
  \<open>sendToDevice\<close> is compared with it below.
\<close>

definition frame :: "int \<Rightarrow> int \<Rightarrow> int \<Rightarrow> byte list \<Rightarrow> apdu" where
  "frame instruction p1 p2 bytes =
     \<lparr>apdu_cla = LEDGER_CLA, apdu_ins = instruction, apdu_p1 = p1, apdu_p2 = p2,
      apdu_data = bytes, apdu_statusList = [StatusCodes_OK]\<rparr>"

function ApduFramer :: "int \<Rightarrow> int \<Rightarrow> int \<Rightarrow> byte list \<Rightarrow> apdu list" where
  "ApduFramer instruction p1 p2 payload =
     (if length payload > 255
      then frame instruction p1 P2_MORE (take 255 payload)
             # ApduFramer instruction (p1 + 1) p2 (drop 255 payload)
      else [frame instruction p1 p2 payload])"
  by pat_completeness auto
termination
  by (relation "measure (\<lambda>(instruction, p1, p2, payload). length payload)") auto

declare ApduFramer.simps [simp del]

text \<open>
  A frame is answered with success when the transport returns a reply that
  \<open>throwOnFailure\<close> lets through.
\<close>

definition replyOk :: "transport \<Rightarrow> apdu list \<Rightarrow> bool" where
  "replyOk transport log =
     (case transport log of
        Inl e \<Rightarrow> False
      | Inr reply \<Rightarrow> throwOnFailure reply = Inr ())"

text \<open>
  Section 4.5 of the specification: the frames go out one at a time, each reply is split
  and checked before the next frame, the first failure ends the exchange, and the body of
  the last reply is the result.
\<close>

fun exchangeFrames :: "transport \<Rightarrow> apdu list \<Rightarrow> apdu list \<Rightarrow> apdu list \<times> (error + byte list)" where
  "exchangeFrames transport log [] = (log, Inr [])"
| "exchangeFrames transport log (f # fs) =
     (case transport (log @ [f]) of
        Inl e \<Rightarrow> (log @ [f], Inl e)
      | Inr reply \<Rightarrow>
          (case throwOnFailure reply of
             Inl e \<Rightarrow> (log @ [f], Inl e)
           | Inr _ \<Rightarrow>
               if fs = [] then (log @ [f], Inr (take (length reply - 2) reply))
               else exchangeFrames transport (log @ [f]) fs))"

text \<open>The status of a reply of at least two bytes: its last two bytes, big-endian.\<close>

definition statusOf :: "byte list \<Rightarrow> nat" where
  "statusOf reply = unat (reply ! (length reply - 2)) * 256 + unat (reply ! (length reply - 1))"

text \<open>
  A frame is answered with the success status when the transport returns a reply of at
  least two bytes whose status is \<open>0x9000\<close>.
\<close>

definition answeredWithSuccess :: "transport \<Rightarrow> apdu list \<Rightarrow> bool" where
  "answeredWithSuccess transport log =
     (case transport log of
        Inl e \<Rightarrow> False
      | Inr reply \<Rightarrow> 2 \<le> length reply \<and> statusOf reply = 0x9000)"

subsection \<open>Collaborators for concrete runs\<close>

text \<open>
  The mock transports of section 8 of the specification: one answers every frame with
  \<open>body\<close> and the success status, the other answers the \<open>k\<close>-th frame with the two
  status bytes \<open>hi\<close>, \<open>lo\<close> alone.
\<close>

definition mockTransport :: "byte list \<Rightarrow> transport" where
  "mockTransport body = (\<lambda>log. Inr (body @ [0x90, 0x00]))"

definition mockTransportStatusAt :: "nat \<Rightarrow> byte \<Rightarrow> byte \<Rightarrow> byte list \<Rightarrow> transport" where
  "mockTransportStatusAt k hi lo body =
     (\<lambda>log. if length log = k then Inr [hi, lo] else Inr (body @ [0x90, 0x00]))"

text \<open>
  A stand-in for the digest in concrete runs: 32 bytes, the message padded with zeros and
  cut. It is not \<open>sha3_256\<close>; the operations above take the digest as a parameter.
\<close>

definition paddingDigest :: "byte list \<Rightarrow> byte list" where
  "paddingDigest message = take 32 (message @ replicate 32 0)"

text \<open>
  Modelled from the spec: the external utility that parses a derivation-path string into
  a list of unsigned indices, the imported package \<open>bip32-path\<close>, which is not among the
  sources. The specification names it without describing it; the model follows the
  package's \<open>fromString\<close>: a leading \<open>m/\<close> is skipped, the rest is split at \<open>/\<close>, and in
  each element the pattern \<open>(\d+)([hH']?)\<close> is searched, not anchored: the first run of
  decimal digits is the index, which must be below \<open>2^31\<close>, and a modifier right after it
  adds \<open>2^31\<close>. What comes before the digits or after the modifier is ignored; an element
  without a digit is rejected.
\<close>

definition HARDENED :: int where
  "HARDENED = 0x80000000"

definition isDigit :: "char \<Rightarrow> bool" where
  "isDigit c \<longleftrightarrow> 48 \<le> (of_char c :: int) \<and> (of_char c :: int) \<le> 57"

definition isModifier :: "char \<Rightarrow> bool" where
  "isModifier c \<longleftrightarrow> c = CHR ''h'' \<or> c = CHR ''H'' \<or> c = CHR 0x27"

text \<open>The search of the pattern in one element: the digits and the modifier, empty if none.\<close>

fun regexExec :: "string \<Rightarrow> (string \<times> string) option" where
  "regexExec [] = None"
| "regexExec (c # cs) =
     (if isDigit c
      then Some (takeWhile isDigit (c # cs),
                 (case dropWhile isDigit (c # cs) of
                    [] \<Rightarrow> []
                  | r # rs \<Rightarrow> if isModifier r then [r] else []))
      else regexExec cs)"

definition parseInt10 :: "string \<Rightarrow> int" where
  "parseInt10 digits = foldl (\<lambda>acc c. acc * 10 + (of_char c - 48)) 0 digits"

definition parseElement :: "string \<Rightarrow> error + int" where
  "parseElement e =
     (case regexExec e of
        None \<Rightarrow> Inl (Thrown ''Invalid input'')
      | Some (digits, modifier) \<Rightarrow>
          if parseInt10 digits \<ge> HARDENED then Inl (Thrown ''Invalid child index'')
          else if modifier = ''h'' \<or> modifier = ''H'' \<or> modifier = apostrophe
          then Inr (parseInt10 digits + HARDENED)
          else if modifier \<noteq> [] then Inl (Thrown ''Invalid modifier'')
          else Inr (parseInt10 digits))"

fun collect :: "(error + 'a) list \<Rightarrow> error + 'a list" where
  "collect [] = Inr []"
| "collect (Inl e # rs) = Inl e"
| "collect (Inr v # rs) = (case collect rs of Inl e \<Rightarrow> Inl e | Inr vs \<Rightarrow> Inr (v # vs))"

definition bip32_fromString :: "string \<Rightarrow> error + int list" where
  "bip32_fromString text =
     collect (map parseElement
                (split_str CHR ''/''
                   (if take 2 text = ''m/'' \<or> take 2 text = ''M/'' then drop 2 text else text)))"


section \<open>Path encoding\<close>

lemma writeUInt32BE_append:
  assumes "is_u32 v" "length pre = off" "4 \<le> length suf"
  shows "writeUInt32BE (pre @ suf) v off = Inr (pre @ be32 v @ drop 4 suf)"
proof -
  obtain a b c d rest where suf: "suf = a # b # c # d # rest"
    using assms(3) by (auto simp: numeral_eq_Suc Suc_le_length_iff)
  show ?thesis using assms(1,2)
    by (simp add: writeUInt32BE_def is_u32_def be32_def suf list_update_append)
qed

lemma writeEntries_enumerate:
  "\<forall>v\<in>set path. is_u32 v \<Longrightarrow> length pre = 1 + k * 4 \<Longrightarrow> 4 * length path \<le> length suf \<Longrightarrow>
   writeEntries (pre @ suf) (enumerate k path) = Inr (pre @ concat (map be32 path) @ drop (4 * length path) suf)"
proof (induction path arbitrary: pre suf k)
  case Nil
  then show ?case by simp
next
  case (Cons v vs)
  have w: "writeUInt32BE (pre @ suf) v (1 + k * 4) = Inr (pre @ be32 v @ drop 4 suf)"
    using Cons.prems by (intro writeUInt32BE_append) auto
  have "writeEntries ((pre @ be32 v) @ drop 4 suf) (enumerate (Suc k) vs)
        = Inr ((pre @ be32 v) @ concat (map be32 vs) @ drop (4 * length vs) (drop 4 suf))"
    using Cons.prems by (intro Cons.IH) (auto simp: be32_def)
  then show ?case using w by (simp add: add.commute)
qed

lemma serializePath_ok:
  assumes "length path \<le> 255" "\<forall>v\<in>set path. is_u32 v"
  shows "serializePath path = Inr (word_of_nat (length path) # concat (map be32 path))"
proof -
  have "writeEntries ([word_of_nat (length path)] @ replicate (length path * 4) 0) (enumerate 0 path)
     = Inr ([word_of_nat (length path)] @ concat (map be32 path) @ drop (4 * length path) (replicate (length path * 4) (0::byte)))"
    using assms by (intro writeEntries_enumerate) auto
  then show ?thesis using assms(1)
    by (simp add: serializePath_def alloc_def writeUInt8_def)
qed

lemma serializePath_too_long:
  "255 < length path \<Longrightarrow> serializePath path = Inl RangeError"
  by (simp add: serializePath_def alloc_def writeUInt8_def)


lemma length_be32 [simp]: "length (be32 v) = 4"
  by (simp add: be32_def)

lemma length_concat_be32 [simp]: "length (concat (map be32 path)) = 4 * length path"
  by (induction path) auto

lemma be32_slice:
  "i < length path \<Longrightarrow> take 4 (drop (4 * i) (concat (map be32 path))) = be32 (path ! i)"
proof (induction path arbitrary: i)
  case Nil
  then show ?case by simp
next
  case (Cons v vs)
  show ?case
  proof (cases i)
    case 0
    then show ?thesis by simp
  next
    case (Suc j)
    then have "j < length vs" using Cons.prems by simp
    then show ?thesis using Cons.IH [of j] Suc by simp
  qed
qed

lemma be32_nth:
  assumes "i < length path" "j < 4"
  shows "concat (map be32 path) ! (4 * i + j) = be32 (path ! i) ! j"
proof -
  have "be32 (path ! i) ! j = take 4 (drop (4 * i) (concat (map be32 path))) ! j"
    using assms by (simp add: be32_slice)
  also have "\<dots> = concat (map be32 path) ! (4 * i + j)"
    using assms by simp
  finally show ?thesis by simp
qed

lemma be32_value:
  assumes "is_u32 v"
  shows "uint (be32 v ! 0) * 2 ^ 24 + uint (be32 v ! 1) * 2 ^ 16 + uint (be32 v ! 2) * 2 ^ 8 + uint (be32 v ! 3) = v"
proof -
  define x1 where "x1 = v div 256"
  define x2 where "x2 = x1 div 256"
  define x3 where "x3 = x2 div 256"
  have b: "0 \<le> v" "v < 4294967296" using assms by (simp_all add: is_u32_def)
  have d2: "v div 65536 = x2" unfolding x2_def x1_def by (simp add: zdiv_zmult2_eq [symmetric])
  have d3: "v div 16777216 = x3" unfolding x3_def x2_def x1_def by (simp add: zdiv_zmult2_eq [symmetric])
  have e0: "v = 256 * x1 + v mod 256" unfolding x1_def by simp
  have e1: "x1 = 256 * x2 + x1 mod 256" unfolding x2_def by simp
  have e2: "x2 = 256 * x3 + x2 mod 256" unfolding x3_def by simp
  have "0 \<le> x3" "x3 < 256" using b d3 by (simp_all add: x3_def x2_def x1_def zdiv_zmult2_eq [symmetric])
  then have e3: "x3 mod 256 = x3" by simp
  have "x3 mod 256 * 16777216 + x2 mod 256 * 65536 + x1 mod 256 * 256 + v mod 256 = v"
    using e0 e1 e2 e3 by linarith
  then show ?thesis
    by (simp add: be32_def uint_word_of_int d2 d3 x1_def [symmetric])
qed

lemma serialized_nth:
  assumes "i < length path" "j < 4"
  shows "(w # concat (map be32 path)) ! (1 + 4 * i + j) = be32 (path ! i) ! j"
  using be32_nth [OF assms] by simp

text \<open>
  Claim C8. A path of at most 255 unsigned 32-bit indices is encoded as one byte holding the
  number of elements, then each index as four bytes, most significant first, in path order:
  \<open>1 + 4 * n\<close> bytes in all. A path of more than 255 elements is not encoded: the write
  of the count throws (Node's range error).
\<close>

theorem serializePath_layout:
  "(length path \<le> 255 \<and> (\<forall>v\<in>set path. is_u32 v) \<longrightarrow>
      (\<exists>buf. serializePath path = Inr buf
         \<and> buf = word_of_nat (length path) # concat (map be32 path)
         \<and> length buf = 1 + 4 * length path
         \<and> unat (buf ! 0) = length path
         \<and> (\<forall>i<length path.
               uint (buf ! (1 + 4 * i)) * 2 ^ 24 + uint (buf ! (1 + 4 * i + 1)) * 2 ^ 16
               + uint (buf ! (1 + 4 * i + 2)) * 2 ^ 8 + uint (buf ! (1 + 4 * i + 3)) = path ! i)))
   \<and> (255 < length path \<longrightarrow> serializePath path = Inl RangeError)"
proof (intro conjI impI)
  assume a: "length path \<le> 255 \<and> (\<forall>v\<in>set path. is_u32 v)"
  let ?buf = "word_of_nat (length path) # concat (map be32 path) :: byte list"
  have 1: "serializePath path = Inr ?buf" using a by (simp add: serializePath_ok)
  have 2: "unat (?buf ! 0) = length path" using a by (simp add: unat_of_nat)
  have 3: "uint (?buf ! (1 + 4 * i)) * 2 ^ 24 + uint (?buf ! (1 + 4 * i + 1)) * 2 ^ 16
               + uint (?buf ! (1 + 4 * i + 2)) * 2 ^ 8 + uint (?buf ! (1 + 4 * i + 3)) = path ! i"
    if "i < length path" for i
  proof -
    have "is_u32 (path ! i)" using a that by simp
    from be32_value [OF this] show ?thesis
      using serialized_nth [OF that, of 0] serialized_nth [OF that, of 1]
            serialized_nth [OF that, of 2] serialized_nth [OF that, of 3]
      by (simp only: add_0_right One_nat_def)
  qed
  show "\<exists>buf. serializePath path = Inr buf
         \<and> buf = word_of_nat (length path) # concat (map be32 path)
         \<and> length buf = 1 + 4 * length path
         \<and> unat (buf ! 0) = length path
         \<and> (\<forall>i<length path.
               uint (buf ! (1 + 4 * i)) * 2 ^ 24 + uint (buf ! (1 + 4 * i + 1)) * 2 ^ 16
               + uint (buf ! (1 + 4 * i + 2)) * 2 ^ 8 + uint (buf ! (1 + 4 * i + 3)) = path ! i)"
    using 1 2 3 by simp
next
  assume "255 < length path"
  then show "serializePath path = Inl RangeError" by (rule serializePath_too_long)
qed

text \<open>The path \<open>44'/637'\<close>, and a path of 256 elements.\<close>

theorem serializePath_layout_witness:
  "serializePath [0x8000002C, 0x8000027D] = Inr [2, 0x80, 0, 0, 0x2C, 0x80, 0, 0x02, 0x7D]
   \<and> serializePath (replicate 256 0x80000000) = Inl RangeError"
proof -
  have h: "length [0x8000002C, 0x8000027D :: int] \<le> 255 \<and> (\<forall>v\<in>set [0x8000002C, 0x8000027D :: int]. is_u32 v)"
    by (simp add: is_u32_def)
  have g: "255 < length (replicate 256 (0x80000000 :: int))" by simp
  show ?thesis
    using serializePath_layout [of "[0x8000002C, 0x8000027D]"] h
          serializePath_layout [of "replicate 256 0x80000000"] g
    by (simp add: be32_def)
qed

lemma endsWith_append_self [simp]: "endsWith (v @ suf) suf"
  by (simp add: endsWith_def)

































section \<open>Framing and exchanges\<close>

lemma throwOnFailure_length: "throwOnFailure reply = Inr u \<Longrightarrow> 2 \<le> length reply"
  by (auto simp: throwOnFailure_def readUInt16BE_def split: if_splits)

lemma subarray_window:
  "subarray buf (Some (int a)) (Some (int a + int n)) = take n (drop a buf)"
  by (auto simp: subarray_def adjustOffset_def Let_def min_def nat_add_distrib)

lemma subarray_body:
  "2 \<le> length reply \<Longrightarrow> subarray reply (Some 0) (Some (int (length reply) - 2)) = take (length reply - 2) reply"
  by (auto simp: subarray_def adjustOffset_def Let_def min_def nat_diff_distrib numeral_2_eq_2)

lemma subarray_from_drop: "subarray_from buf (Some (int a)) = drop a buf"
  by (simp add: subarray_from_def adjustOffset_def min_def)

lemma ApduFramer_nonempty: "ApduFramer instruction p1 p2 payload \<noteq> []"
  by (subst ApduFramer.simps) simp

lemma sendToDevice_final_Inl:
  "sendToDevice_final transport instruction p2 payload (log, Inl e) = (log, Inl e)"
  by (simp add: sendToDevice_final_def)

lemma sendToDevice_final_last:
  "sendToDevice_final transport instruction p2 payload (log, Inr (off, p1))
     = exchangeFrames transport log [frame instruction p1 p2 (drop off payload)]"
  by (auto simp: sendToDevice_final_def send_def frame_def Let_def subarray_from_drop subarray_body
           dest: throwOnFailure_length split: sum.splits)

lemma subarray_chunk:
  "subarray buf (Some (int a)) (Some (int a + 255)) = take 255 (drop a buf)"
  using subarray_window [of buf a 255] by simp

lemma loop_unfold:
  "sendToDevice_loop transport instruction payload log off p1 =
     (if 255 < length payload - off
      then (case transport (log @ [frame instruction p1 P2_MORE (take 255 (drop off payload))]) of
              Inl e \<Rightarrow> (log @ [frame instruction p1 P2_MORE (take 255 (drop off payload))], Inl e)
            | Inr reply \<Rightarrow>
                (case throwOnFailure reply of
                   Inl e \<Rightarrow> (log @ [frame instruction p1 P2_MORE (take 255 (drop off payload))], Inl e)
                 | Inr _ \<Rightarrow>
                     sendToDevice_loop transport instruction payload
                       (log @ [frame instruction p1 P2_MORE (take 255 (drop off payload))])
                       (off + 255) (p1 + 1)))
      else (log, Inr (off, p1)))"
proof -
  have c: "(int MAX_APDU_LEN < int (length payload) - int off) = (255 < length payload - off)"
    by (auto simp: MAX_APDU_LEN_def)
  show ?thesis
    by (subst sendToDevice_loop.simps, simp only: c)
       (simp add: send_def Let_def frame_def MAX_APDU_LEN_def subarray_chunk cong: sum.case_cong)
qed

lemma loop_refines:
  "off \<le> length payload \<Longrightarrow>
   sendToDevice_final transport instruction p2 payload
       (sendToDevice_loop transport instruction payload log off p1)
     = exchangeFrames transport log (ApduFramer instruction p1 p2 (drop off payload))"
proof (induction transport instruction payload log off p1 rule: sendToDevice_loop.induct)
  case (1 transport instruction payload log payloadOffset p1)
  let ?f = "frame instruction p1 P2_MORE (take 255 (drop payloadOffset payload))"
  show ?case
  proof (cases "255 < length payload - payloadOffset")
    case False
    have "sendToDevice_loop transport instruction payload log payloadOffset p1 = (log, Inr (payloadOffset, p1))"
      using False by (subst loop_unfold) simp
    moreover have "ApduFramer instruction p1 p2 (drop payloadOffset payload)
                     = [frame instruction p1 p2 (drop payloadOffset payload)]"
      using False by (subst ApduFramer.simps) simp
    ultimately show ?thesis by (simp add: sendToDevice_final_last)
  next
    case big: True
    then have True: "int MAX_APDU_LEN < int (length payload) - int payloadOffset"
      by (auto simp: MAX_APDU_LEN_def)
    have fr: "ApduFramer instruction p1 p2 (drop payloadOffset payload)
                = ?f # ApduFramer instruction (p1 + 1) p2 (drop (payloadOffset + 255) payload)"
      using big by (subst ApduFramer.simps) (simp add: add.commute)
    show ?thesis
    proof (cases "transport (log @ [?f])")
      case (Inl e)
      have "sendToDevice_loop transport instruction payload log payloadOffset p1 = (log @ [?f], Inl e)"
        using big Inl by (subst loop_unfold) simp
      then show ?thesis using Inl by (simp add: fr sendToDevice_final_Inl)
    next
      case (Inr reply)
      show ?thesis
      proof (cases "throwOnFailure reply")
        case (Inl e)
        have "sendToDevice_loop transport instruction payload log payloadOffset p1 = (log @ [?f], Inl e)"
          using big Inr Inl by (subst loop_unfold) simp
        then show ?thesis using Inr Inl by (simp add: fr sendToDevice_final_Inl)
      next
        case ok: (Inr u)
        have step: "sendToDevice_loop transport instruction payload log payloadOffset p1
                = sendToDevice_loop transport instruction payload (log @ [?f]) (payloadOffset + 255) (p1 + 1)"
          using big Inr ok by (subst loop_unfold) simp
        have "sendToDevice_final transport instruction p2 payload
                (sendToDevice_loop transport instruction payload (log @ [?f]) (payloadOffset + 255) (p1 + 1))
              = exchangeFrames transport (log @ [?f])
                  (ApduFramer instruction (p1 + 1) p2 (drop (payloadOffset + 255) payload))"
          using "1.IH" [OF True refl refl, of reply u] Inr ok big
          by (simp add: subarray_chunk frame_def send_def MAX_APDU_LEN_def)
        then show ?thesis using Inr ok by (simp add: fr step ApduFramer_nonempty)
      qed
    qed
  qed
qed

lemma sendToDevice_refines:
  "sendToDevice transport log instruction p1 p2 payload
     = exchangeFrames transport log (ApduFramer instruction p1 p2 payload)"
proof -
  have "sendToDevice transport log instruction p1 p2 payload
          = sendToDevice_final transport instruction p2 payload
              (sendToDevice_loop transport instruction payload log 0 p1)"
  proof (cases "length payload > MAX_APDU_LEN")
    case True
    then show ?thesis by (simp add: sendToDevice_def)
  next
    case False
    then have "sendToDevice_loop transport instruction payload log 0 p1 = (log, Inr (0, p1))"
      by (subst sendToDevice_loop.simps) simp
    then show ?thesis using False by (simp add: sendToDevice_def)
  qed
  then show ?thesis using loop_refines [of 0 payload] by simp
qed

lemma ApduFramer_length:
  "length (ApduFramer instruction p1 p2 payload) = (max (length payload) 1 + 254) div 255"
proof (induction instruction p1 p2 payload rule: ApduFramer.induct)
  case (1 instruction p1 p2 payload)
  show ?case
  proof (cases "255 < length payload")
    case True
    have a: "Suc ((max (n - 255) 1 + 254) div 255) = (max n 1 + 254) div 255" if "255 < n" for n :: nat
      using that by arith
    have "length (ApduFramer instruction p1 p2 payload)
            = Suc (length (ApduFramer instruction (p1 + 1) p2 (drop 255 payload)))"
      using True by (subst ApduFramer.simps) simp
    then show ?thesis using "1.IH" [OF True] a [OF True] by simp
  next
    case False
    have b: "(max n 1 + 254) div 255 = 1" if "\<not> 255 < n" for n :: nat
      using that by arith
    have "length (ApduFramer instruction p1 p2 payload) = 1"
      using False by (subst ApduFramer.simps) simp
    then show ?thesis using b [OF False] by simp
  qed
qed

lemma ApduFramer_concat:
  "concat (map apdu_data (ApduFramer instruction p1 p2 payload)) = payload"
proof (induction instruction p1 p2 payload rule: ApduFramer.induct)
  case (1 instruction p1 p2 payload)
  show ?case
  proof (cases "255 < length payload")
    case True
    then show ?thesis using 1 by (subst ApduFramer.simps) (simp add: frame_def)
  next
    case False
    then show ?thesis by (subst ApduFramer.simps) (simp add: frame_def)
  qed
qed

lemma ApduFramer_nth:
  "i < length (ApduFramer instruction p1 p2 payload) \<Longrightarrow>
   ApduFramer instruction p1 p2 payload ! i
     = frame instruction (p1 + int i)
         (if Suc i < length (ApduFramer instruction p1 p2 payload) then P2_MORE else p2)
         (take 255 (drop (255 * i) payload))"
proof (induction instruction p1 p2 payload arbitrary: i rule: ApduFramer.induct)
  case (1 instruction p1 p2 payload)
  show ?case
  proof (cases "255 < length payload")
    case False
    then have single: "ApduFramer instruction p1 p2 payload = [frame instruction p1 p2 payload]"
      by (subst ApduFramer.simps) simp
    then have "i = 0" using "1.prems" by simp
    then show ?thesis using False by (simp add: single)
  next
    case True
    then have unf: "ApduFramer instruction p1 p2 payload
                = frame instruction p1 P2_MORE (take 255 payload)
                    # ApduFramer instruction (p1 + 1) p2 (drop 255 payload)"
      by (subst ApduFramer.simps) simp
    show ?thesis
    proof (cases i)
      case 0
      then show ?thesis by (simp add: unf ApduFramer_nonempty)
    next
      case (Suc j)
      then have "j < length (ApduFramer instruction (p1 + 1) p2 (drop 255 payload))"
        using "1.prems" by (simp add: unf)
      from "1.IH" [OF True this] show ?thesis
        by (simp add: unf Suc ac_simps)
    qed
  qed
qed

lemma readUInt16BE_status:
  assumes "2 \<le> length reply"
  shows "readUInt16BE reply (int (length reply) - 2) = Inr (statusOf reply)"
proof -
  have a: "nat (int (length reply) - 2) = length reply - 2" by simp
  have b: "length reply - 2 + 1 = length reply - 1" using assms by simp
  have c: "\<not> int (length reply) - 2 < 0" using assms by simp
  show ?thesis
    unfolding readUInt16BE_def statusOf_def a b using c by simp
qed

lemma throwOnFailure_status:
  "2 \<le> length reply \<Longrightarrow>
   throwOnFailure reply
     = (if statusOf reply = 0x9000 then Inr ()
        else Inl (Error (''Failure with status code: 0x'' @ toString16 (statusOf reply))))"
  by (simp add: throwOnFailure_def readUInt16BE_status StatusCodes_OK_def)

lemma throwOnFailure_short:
  "length reply < 2 \<Longrightarrow> throwOnFailure reply = Inl RangeError"
  by (auto simp: throwOnFailure_def readUInt16BE_def)

lemma replyOk_status: "replyOk transport log = answeredWithSuccess transport log"
proof (cases "transport log")
  case (Inl e)
  then show ?thesis by (simp add: replyOk_def answeredWithSuccess_def)
next
  case (Inr reply)
  show ?thesis
  proof (cases "2 \<le> length reply")
    case True
    then show ?thesis
      using Inr by (simp add: replyOk_def answeredWithSuccess_def throwOnFailure_status)
  next
    case False
    then have "throwOnFailure reply = Inl RangeError" by (simp add: throwOnFailure_short)
    then show ?thesis using Inr False by (simp add: replyOk_def answeredWithSuccess_def)
  qed
qed

lemma exchangeFrames_first_failure:
  "k < length fs \<Longrightarrow> (\<forall>i<k. replyOk transport (log @ take (Suc i) fs)) \<Longrightarrow>
   \<not> replyOk transport (log @ take (Suc k) fs) \<Longrightarrow>
   \<exists>e. exchangeFrames transport log fs = (log @ take (Suc k) fs, Inl e)"
proof (induction fs arbitrary: log k)
  case Nil
  then show ?case by simp
next
  case (Cons f fs)
  show ?case
  proof (cases k)
    case 0
    then show ?thesis using Cons.prems(3)
      by (auto simp: replyOk_def split: sum.splits)
  next
    case (Suc j)
    have ok0: "replyOk transport (log @ [f])" using Cons.prems(2) Suc by fastforce
    have j: "j < length fs" using Cons.prems(1) Suc by simp
    have oks: "\<forall>i<j. replyOk transport ((log @ [f]) @ take (Suc i) fs)"
    proof (intro allI impI)
      fix i assume "i < j"
      then have "Suc i < k" using Suc by simp
      from Cons.prems(2) [rule_format, OF this] show "replyOk transport ((log @ [f]) @ take (Suc i) fs)"
        by simp
    qed
    have bad: "\<not> replyOk transport ((log @ [f]) @ take (Suc j) fs)"
      using Cons.prems(3) Suc by simp
    from Cons.IH [OF j oks bad] obtain e where
      "exchangeFrames transport (log @ [f]) fs = ((log @ [f]) @ take (Suc j) fs, Inl e)" by blast
    moreover have "fs \<noteq> []" using j by auto
    ultimately show ?thesis using ok0 Suc
      by (auto simp: replyOk_def split: sum.splits)
  qed
qed

lemma exchangeFrames_Inr:
  "fs \<noteq> [] \<Longrightarrow> exchangeFrames transport log fs = (log', Inr body) \<Longrightarrow>
   log' = log @ fs \<and> (\<forall>i<length fs. replyOk transport (log @ take (Suc i) fs))
   \<and> (\<exists>reply. transport log' = Inr reply \<and> 2 \<le> length reply \<and> body = take (length reply - 2) reply)"
proof (induction fs arbitrary: log)
  case Nil
  then show ?case by simp
next
  case (Cons f fs)
  from Cons.prems(2) obtain reply u where r: "transport (log @ [f]) = Inr reply" "throwOnFailure reply = Inr u"
    by (auto split: sum.splits)
  then have ok0: "replyOk transport (log @ [f])" by (simp add: replyOk_def)
  show ?case
  proof (cases "fs = []")
    case True
    then show ?thesis using Cons.prems(2) r ok0 throwOnFailure_length [OF r(2)] by auto
  next
    case False
    then have "exchangeFrames transport (log @ [f]) fs = (log', Inr body)"
      using Cons.prems(2) r by simp
    from Cons.IH [OF False this] have
      ih: "log' = (log @ [f]) @ fs" "\<forall>i<length fs. replyOk transport ((log @ [f]) @ take (Suc i) fs)"
          "\<exists>reply. transport log' = Inr reply \<and> 2 \<le> length reply \<and> body = take (length reply - 2) reply"
      by auto
    have "replyOk transport (log @ take (Suc i) (f # fs))" if "i < length (f # fs)" for i
    proof (cases i)
      case 0
      then show ?thesis using ok0 by simp
    next
      case (Suc j)
      then show ?thesis using ih(2) that by simp
    qed
    then show ?thesis using ih(1,3) by simp
  qed
qed

lemma exchangeFrames_last_reply:
  "fs \<noteq> [] \<Longrightarrow> exchangeFrames transport log fs = (log', r) \<Longrightarrow> transport log' = Inr reply \<Longrightarrow>
   r = (case throwOnFailure reply of Inl e \<Rightarrow> Inl e | Inr u \<Rightarrow> Inr (take (length reply - 2) reply))"
proof (induction fs arbitrary: log)
  case Nil
  then show ?case by simp
next
  case (Cons f fs)
  show ?case
  proof (cases "transport (log @ [f])")
    case (Inl e)
    then show ?thesis using Cons.prems by auto
  next
    case (Inr reply0)
    show ?thesis
    proof (cases "throwOnFailure reply0")
      case (Inl e)
      then show ?thesis using Cons.prems Inr by auto
    next
      case ok: (Inr u)
      show ?thesis
      proof (cases "fs = []")
        case True
        then show ?thesis using Cons.prems Inr ok by auto
      next
        case False
        then have "exchangeFrames transport (log @ [f]) fs = (log', r)"
          using Cons.prems(2) Inr ok by simp
        from Cons.IH [OF False this Cons.prems(3)] show ?thesis .
      qed
    qed
  qed
qed

lemma exchangeFrames_trace:
  "fs \<noteq> [] \<Longrightarrow> exchangeFrames transport log fs = (log', r) \<Longrightarrow>
   \<exists>j. 0 < j \<and> j \<le> length fs \<and> log' = log @ take j fs
     \<and> (\<forall>i. Suc i < j \<longrightarrow> replyOk transport (log @ take (Suc i) fs))
     \<and> (isl r \<longleftrightarrow> \<not> replyOk transport log')
     \<and> (\<not> isl r \<longrightarrow> j = length fs)"
proof (induction fs arbitrary: log)
  case Nil
  then show ?case by simp
next
  case (Cons f fs)
  show ?case
  proof (cases "replyOk transport (log @ [f])")
    case False
    have "log' = log @ [f] \<and> isl r"
    proof (cases "transport (log @ [f])")
      case (Inl e)
      from Cons.prems(2) have "(log', r) = (log @ [f], Inl e)" by (simp add: Inl)
      then show ?thesis by simp
    next
      case (Inr reply)
      then obtain e where e: "throwOnFailure reply = Inl e"
        using False by (cases "throwOnFailure reply") (auto simp: replyOk_def)
      from Cons.prems(2) have "(log', r) = (log @ [f], Inl e)" by (simp add: Inr e)
      then show ?thesis by simp
    qed
    then show ?thesis using False by (intro exI [of _ 1]) simp
  next
    case ok0: True
    show ?thesis
    proof (cases "fs = []")
      case True
      then have "log' = log @ [f]" "\<not> isl r"
        using Cons.prems(2) ok0 by (auto simp: replyOk_def split: sum.splits)
      then show ?thesis using ok0 True by (intro exI [of _ 1]) simp
    next
      case False
      then have "exchangeFrames transport (log @ [f]) fs = (log', r)"
        using Cons.prems(2) ok0 by (auto simp: replyOk_def split: sum.splits)
      from Cons.IH [OF False this] obtain j where j:
        "0 < j" "j \<le> length fs" "log' = (log @ [f]) @ take j fs"
        "\<forall>i. Suc i < j \<longrightarrow> replyOk transport ((log @ [f]) @ take (Suc i) fs)"
        "isl r \<longleftrightarrow> \<not> replyOk transport log'" "\<not> isl r \<longrightarrow> j = length fs"
        by blast
      have "replyOk transport (log @ take (Suc i) (f # fs))" if "Suc i < Suc j" for i
      proof (cases i)
        case 0
        then show ?thesis using ok0 by simp
      next
        case (Suc k)
        then have "Suc k < j" using that by simp
        then show ?thesis using j(4) Suc by simp
      qed
      then have all: "\<forall>i. Suc i < Suc j \<longrightarrow> replyOk transport (log @ take (Suc i) (f # fs))"
        by blast
      have sent: "log' = log @ take (Suc j) (f # fs)" using j(3) by simp
      have bounds: "0 < Suc j" "Suc j \<le> length (f # fs)" using j(2) by simp_all
      have full: "\<not> isl r \<longrightarrow> Suc j = length (f # fs)" using j(6) by simp
      show ?thesis
        using bounds sent all j(5) full by (intro exI [of _ "Suc j"] conjI)
    qed
  qed
qed

lemma exchangeFrames_append:
  "fs \<noteq> [] \<Longrightarrow> gs \<noteq> [] \<Longrightarrow>
   exchangeFrames transport log (fs @ gs)
     = (case snd (exchangeFrames transport log fs) of
          Inl e \<Rightarrow> exchangeFrames transport log fs
        | Inr b \<Rightarrow> exchangeFrames transport (fst (exchangeFrames transport log fs)) gs)"
proof (induction fs arbitrary: log)
  case Nil
  then show ?case by simp
next
  case (Cons f fs)
  show ?case
  proof (cases "fs = []")
    case True
    then show ?thesis using Cons.prems(2) by (auto split: sum.splits)
  next
    case False
    from Cons.IH [OF False Cons.prems(2)] show ?thesis using False
      by (auto split: sum.splits)
  qed
qed

lemma sendToDevice_trace_prefix:
  assumes "sendToDevice transport log instruction p1 p2 payload = (log', r)"
  shows "\<exists>fs. fs \<noteq> [] \<and> log' = log @ fs
           \<and> take (length fs) (ApduFramer instruction p1 p2 payload) = fs
           \<and> (\<forall>i. Suc i < length fs \<longrightarrow> replyOk transport (log @ take (Suc i) fs))
           \<and> (isl r \<longleftrightarrow> \<not> replyOk transport log')"
proof -
  let ?fs = "ApduFramer instruction p1 p2 payload"
  have "exchangeFrames transport log ?fs = (log', r)"
    using assms by (simp add: sendToDevice_refines)
  from exchangeFrames_trace [OF ApduFramer_nonempty this] obtain j where j:
    "0 < j" "j \<le> length ?fs" "log' = log @ take j ?fs"
    "\<forall>i. Suc i < j \<longrightarrow> replyOk transport (log @ take (Suc i) ?fs)"
    "isl r \<longleftrightarrow> \<not> replyOk transport log'"
    by blast
  have 1: "take j ?fs \<noteq> []" using j(1) ApduFramer_nonempty [of instruction p1 p2 payload] by simp
  have 2: "\<forall>i. Suc i < length (take j ?fs) \<longrightarrow> replyOk transport (log @ take (Suc i) (take j ?fs))"
    using j(2,4) by (simp add: min_def)
  have 3: "take (length (take j ?fs)) ?fs = take j ?fs" using j(2) by (simp add: min_def)
  show ?thesis using 1 2 3 j(3,5) by blast
qed

lemma prefix_replies:
  "j \<le> length fs \<Longrightarrow> \<forall>i. Suc i < j \<longrightarrow> replyOk transport (log @ take (Suc i) fs) \<Longrightarrow>
   \<forall>i. Suc i < length (take j fs) \<longrightarrow> replyOk transport (log @ take (Suc i) (take j fs))"
  by (simp add: min_def)

lemma subarray_nat:
  "subarray buf (Some (int a)) (Some (int b)) = take (b - a) (drop a buf)"
  by (auto simp: subarray_def adjustOffset_def Let_def min_def)

lemma subarray_NaN_end: "subarray buf start None = []"
  by (simp add: subarray_def adjustOffset_def)

lemma signature_slice:
  "subarray body (Some 1) (plus_number (Some 1) (byteAt body 0))
     = (if body = [] then [] else take (unat (body ! 0)) (drop 1 body))"
proof (cases "body = []")
  case True
  then show ?thesis by (simp add: byteAt_def plus_number_def subarray_NaN_end)
next
  case False
  have "subarray body (Some (int 1)) (Some (int (1 + unat (body ! 0))))
          = take (1 + unat (body ! 0) - 1) (drop 1 body)"
    by (rule subarray_nat)
  then show ?thesis using False by (simp add: byteAt_def plus_number_def)
qed

lemma signTransaction_refines:
  assumes "pathToBuffer fromString path = Inr pathBuffer"
  shows "signTransaction fromString transport log path txBuffer
     = (case snd (exchangeFrames transport log
                    (ApduFramer INS_SIGN_TX P1_START P2_MORE pathBuffer
                       @ ApduFramer INS_SIGN_TX 1 P2_LAST txBuffer)) of
          Inl e \<Rightarrow> (fst (exchangeFrames transport log
                          (ApduFramer INS_SIGN_TX P1_START P2_MORE pathBuffer
                             @ ApduFramer INS_SIGN_TX 1 P2_LAST txBuffer)), Inl e)
        | Inr body \<Rightarrow>
            (fst (exchangeFrames transport log
                    (ApduFramer INS_SIGN_TX P1_START P2_MORE pathBuffer
                       @ ApduFramer INS_SIGN_TX 1 P2_LAST txBuffer)),
             Inr \<lparr>signature = (if body = [] then [] else take (unat (body ! 0)) (drop 1 body))\<rparr>))"
  unfolding signTransaction_def assms
  by (simp add: sendToDevice_refines exchangeFrames_append [OF ApduFramer_nonempty ApduFramer_nonempty]
                signature_slice Let_def
           split: sum.splits)

lemma signTransaction_no_path:
  "pathToBuffer fromString path = Inl e \<Longrightarrow>
   signTransaction fromString transport log path txBuffer = (log, Inl e)"
  by (simp add: signTransaction_def)

text \<open>
  Claim C3. A call of \<open>sendToDevice\<close> that returns has sent, for a payload of \<open>n\<close>
  bytes, exactly \<open>ceil (max n 1 / 255)\<close> frames, the frames of \<open>ApduFramer\<close>: frame
  \<open>i\<close> carries \<open>p1 + i\<close> and the bytes from \<open>255 * i\<close> on, at most 255 of them; every
  frame but the last carries \<open>P2_MORE\<close> and 255 bytes, the last carries the caller's
  \<open>p2\<close> and what remains; the payloads in order make up the original payload; an empty
  payload gives one frame with no data.
\<close>

theorem sendToDevice_frames:
  assumes "sendToDevice transport log instruction p1 p2 payload = (log', Inr body)"
  shows "\<exists>fs. log' = log @ fs
      \<and> fs = ApduFramer instruction p1 p2 payload
      \<and> length fs = (max (length payload) 1 + 254) div 255
      \<and> (\<forall>i<length fs.
            apdu_cla (fs ! i) = LEDGER_CLA \<and> apdu_ins (fs ! i) = instruction
          \<and> apdu_p1 (fs ! i) = p1 + int i
          \<and> apdu_data (fs ! i) = take 255 (drop (255 * i) payload)
          \<and> length (apdu_data (fs ! i)) \<le> 255
          \<and> (Suc i < length fs \<longrightarrow> apdu_p2 (fs ! i) = P2_MORE \<and> length (apdu_data (fs ! i)) = 255)
          \<and> (Suc i = length fs \<longrightarrow> apdu_p2 (fs ! i) = p2 \<and> apdu_data (fs ! i) = drop (255 * i) payload))
      \<and> concat (map apdu_data fs) = payload
      \<and> (payload = [] \<longrightarrow> fs = [frame instruction p1 p2 []])"
proof -
  let ?fs = "ApduFramer instruction p1 p2 payload"
  have ex: "exchangeFrames transport log ?fs = (log', Inr body)"
    using assms by (simp add: sendToDevice_refines)
  have sent: "log' = log @ ?fs"
    using exchangeFrames_Inr [OF ApduFramer_nonempty ex] by simp
  have len: "length ?fs = (max (length payload) 1 + 254) div 255"
    by (rule ApduFramer_length)
  have each: "apdu_cla (?fs ! i) = LEDGER_CLA \<and> apdu_ins (?fs ! i) = instruction
          \<and> apdu_p1 (?fs ! i) = p1 + int i
          \<and> apdu_data (?fs ! i) = take 255 (drop (255 * i) payload)
          \<and> length (apdu_data (?fs ! i)) \<le> 255
          \<and> (Suc i < length ?fs \<longrightarrow> apdu_p2 (?fs ! i) = P2_MORE \<and> length (apdu_data (?fs ! i)) = 255)
          \<and> (Suc i = length ?fs \<longrightarrow> apdu_p2 (?fs ! i) = p2 \<and> apdu_data (?fs ! i) = drop (255 * i) payload)"
    if i: "i < length ?fs" for i
  proof -
    have nth: "?fs ! i = frame instruction (p1 + int i)
                 (if Suc i < length ?fs then P2_MORE else p2) (take 255 (drop (255 * i) payload))"
      by (rule ApduFramer_nth [OF i])
    have more: "255 * i + 255 < length payload" if "Suc i < length ?fs"
      using that unfolding len by arith
    have last: "length payload \<le> 255 * i + 255" if "Suc i = length ?fs"
      using that unfolding len by arith
    show ?thesis
      using more last by (auto simp: nth frame_def)
  qed
  have cat: "concat (map apdu_data ?fs) = payload" by (rule ApduFramer_concat)
  have empty: "payload = [] \<longrightarrow> ?fs = [frame instruction p1 p2 []]"
    by (subst ApduFramer.simps) simp
  show ?thesis using sent len each cat empty by blast
qed

text \<open>A payload of 600 bytes against the mock transport: three frames, 255, 255 and 90 bytes.\<close>

theorem sendToDevice_frames_witness:
  "sendToDevice (mockTransport [7]) [] INS_SIGN_TX 1 P2_LAST (replicate 600 1)
     = ([frame INS_SIGN_TX 1 P2_MORE (replicate 255 1), frame INS_SIGN_TX 2 P2_MORE (replicate 255 1),
         frame INS_SIGN_TX 3 P2_LAST (replicate 90 1)], Inr [7])
   \<and> (\<exists>fs. [frame INS_SIGN_TX 1 P2_MORE (replicate 255 1), frame INS_SIGN_TX 2 P2_MORE (replicate 255 1),
             frame INS_SIGN_TX 3 P2_LAST (replicate 90 1)] = [] @ fs
          \<and> length fs = 3 \<and> concat (map apdu_data fs) = replicate 600 1)"
proof -
  have run: "sendToDevice (mockTransport [7]) [] INS_SIGN_TX 1 P2_LAST (replicate 600 1)
     = ([frame INS_SIGN_TX 1 P2_MORE (replicate 255 1), frame INS_SIGN_TX 2 P2_MORE (replicate 255 1),
         frame INS_SIGN_TX 3 P2_LAST (replicate 90 1)], Inr [7])"
    by (simp add: sendToDevice_refines ApduFramer.simps mockTransport_def throwOnFailure_status statusOf_def)
  from sendToDevice_frames [OF run] obtain fs where
    "[frame INS_SIGN_TX 1 P2_MORE (replicate 255 (1::byte)), frame INS_SIGN_TX 2 P2_MORE (replicate 255 1),
      frame INS_SIGN_TX 3 P2_LAST (replicate 90 1)] = [] @ fs"
    "length fs = (max (length (replicate 600 (1::byte))) 1 + 254) div 255"
    "concat (map apdu_data fs) = replicate 600 1"
    by blast
  then show ?thesis using run by simp
qed

text \<open>
  Claim C5. For a reply of \<open>k \<ge> 2\<close> bytes the status is its last two bytes read
  big-endian. \<open>throwOnFailure\<close> throws an error whose message carries the status in
  hexadecimal exactly when the status is not \<open>0x9000\<close>; and when \<open>reply\<close> answers the
  last frame that \<open>sendToDevice\<close> sent, the call returns the first \<open>k - 2\<close> bytes of the
  reply if the status is \<open>0x9000\<close> and throws that error otherwise.
\<close>

theorem status_check:
  assumes "2 \<le> length reply"
  shows "statusOf reply = unat (reply ! (length reply - 2)) * 256 + unat (reply ! (length reply - 1))
     \<and> throwOnFailure reply
         = (if statusOf reply = 0x9000 then Inr ()
            else Inl (Error (''Failure with status code: 0x'' @ toString16 (statusOf reply))))
     \<and> (sendToDevice transport log instruction p1 p2 payload = (log', r) \<and> transport log' = Inr reply
          \<longrightarrow> r = (if statusOf reply = 0x9000 then Inr (take (length reply - 2) reply)
                   else Inl (Error (''Failure with status code: 0x'' @ toString16 (statusOf reply)))))"
proof (intro conjI impI)
  show "statusOf reply = unat (reply ! (length reply - 2)) * 256 + unat (reply ! (length reply - 1))"
    by (simp add: statusOf_def)
  show "throwOnFailure reply
         = (if statusOf reply = 0x9000 then Inr ()
            else Inl (Error (''Failure with status code: 0x'' @ toString16 (statusOf reply))))"
    using assms by (rule throwOnFailure_status)
  assume a: "sendToDevice transport log instruction p1 p2 payload = (log', r) \<and> transport log' = Inr reply"
  then have "exchangeFrames transport log (ApduFramer instruction p1 p2 payload) = (log', r)"
    by (simp add: sendToDevice_refines)
  from exchangeFrames_last_reply [OF ApduFramer_nonempty this] a
  have "r = (case throwOnFailure reply of Inl e \<Rightarrow> Inl e | Inr u \<Rightarrow> Inr (take (length reply - 2) reply))"
    by simp
  then show "r = (if statusOf reply = 0x9000 then Inr (take (length reply - 2) reply)
                   else Inl (Error (''Failure with status code: 0x'' @ toString16 (statusOf reply))))"
    by (simp add: throwOnFailure_status [OF assms])
qed

text \<open>A version reply with the success status, and a reply that is the status \<open>0x6985\<close> alone.\<close>

theorem status_check_witness:
  "sendToDevice (mockTransport [1, 2, 3]) [] INS_GET_VERSION P1_NON_CONFIRM P2_LAST []
     = ([frame INS_GET_VERSION P1_NON_CONFIRM P2_LAST []], Inr [1, 2, 3])
   \<and> statusOf [1, 2, 3, 0x90, 0x00] = 0x9000
   \<and> throwOnFailure [1, 2, 3, 0x90, 0x00] = Inr ()
   \<and> throwOnFailure [0x69, 0x85] = Inl (Error ''Failure with status code: 0x6985'')
   \<and> sendToDevice (mockTransportStatusAt 1 0x69 0x85 []) [] INS_GET_VERSION P1_NON_CONFIRM P2_LAST []
     = ([frame INS_GET_VERSION P1_NON_CONFIRM P2_LAST []], Inl (Error ''Failure with status code: 0x6985''))"
proof -
  let ?f = "frame INS_GET_VERSION P1_NON_CONFIRM P2_LAST []"
  have hex: "toString16 0x6985 = ''6985''" by (simp add: toString16.simps hexDigit_def)
  have s1: "statusOf [1, 2, 3, 0x90, 0x00] = 0x9000" by (simp add: statusOf_def)
  have s2: "statusOf [0x69, 0x85] = 0x6985" by (simp add: statusOf_def)
  have l1: "2 \<le> length [1, 2, 3, 0x90, 0x00 :: byte]" by simp
  have l2: "2 \<le> length [0x69, 0x85 :: byte]" by simp
  have t1: "mockTransport [1, 2, 3] [?f] = Inr [1, 2, 3, 0x90, 0x00]" by (simp add: mockTransport_def)
  have t2: "mockTransportStatusAt 1 0x69 0x85 [] [?f] = Inr [0x69, 0x85]"
    by (simp add: mockTransportStatusAt_def)
  have f1: "fst (sendToDevice (mockTransport [1, 2, 3]) [] INS_GET_VERSION P1_NON_CONFIRM P2_LAST []) = [?f]"
    by (simp add: sendToDevice_refines ApduFramer.simps t1 throwOnFailure_status s1)
  have f2: "fst (sendToDevice (mockTransportStatusAt 1 0x69 0x85 []) [] INS_GET_VERSION P1_NON_CONFIRM P2_LAST []) = [?f]"
    by (simp add: sendToDevice_refines ApduFramer.simps mockTransportStatusAt_def throwOnFailure_status s2)
  have r1: "snd (sendToDevice (mockTransport [1, 2, 3]) [] INS_GET_VERSION P1_NON_CONFIRM P2_LAST []) = Inr [1, 2, 3]"
    using status_check [OF l1, of "mockTransport [1, 2, 3]" "[]" INS_GET_VERSION P1_NON_CONFIRM P2_LAST "[]" "[?f]"
            "snd (sendToDevice (mockTransport [1, 2, 3]) [] INS_GET_VERSION P1_NON_CONFIRM P2_LAST [])"]
          f1 [symmetric] t1
    by (simp add: s1)
  have r2: "snd (sendToDevice (mockTransportStatusAt 1 0x69 0x85 []) [] INS_GET_VERSION P1_NON_CONFIRM P2_LAST [])
              = Inl (Error ''Failure with status code: 0x6985'')"
    using status_check [OF l2, of "mockTransportStatusAt 1 0x69 0x85 []" "[]" INS_GET_VERSION P1_NON_CONFIRM P2_LAST "[]" "[?f]"
            "snd (sendToDevice (mockTransportStatusAt 1 0x69 0x85 []) [] INS_GET_VERSION P1_NON_CONFIRM P2_LAST [])"]
          f2 [symmetric] t2
    by (simp add: s2 hex)
  have w1: "throwOnFailure [1, 2, 3, 0x90, 0x00] = Inr ()"
    using status_check [OF l1] by (simp add: s1)
  have w2: "throwOnFailure [0x69, 0x85] = Inl (Error ''Failure with status code: 0x6985'')"
    using status_check [OF l2] by (simp add: s2 hex)
  show ?thesis
    using f1 r1 f2 r2 s1 w1 w2 by (simp add: prod_eq_iff)
qed

lemma abort_checked:
  "(sendToDevice transport log instruction p1 p2 payload = (log', r) \<longrightarrow>
      (\<exists>fs. fs \<noteq> [] \<and> log' = log @ fs
          \<and> take (length fs) (ApduFramer instruction p1 p2 payload) = fs
          \<and> (\<forall>i. Suc i < length fs \<longrightarrow> replyOk transport (log @ take (Suc i) fs))
          \<and> (isl r \<longleftrightarrow> \<not> replyOk transport log')))
   \<and> (signTransaction fromString transport log path txBuffer = (log'', s) \<longrightarrow>
      (\<exists>fs. log'' = log @ fs
          \<and> (\<forall>i. Suc i < length fs \<longrightarrow> replyOk transport (log @ take (Suc i) fs))
          \<and> (if fs = [] then isl s else (isl s \<longleftrightarrow> \<not> replyOk transport log''))))
   \<and> (k < length (ApduFramer instruction p1 p2 payload)
      \<and> (\<forall>i<k. replyOk transport (log @ take (Suc i) (ApduFramer instruction p1 p2 payload)))
      \<and> \<not> replyOk transport (log @ take (Suc k) (ApduFramer instruction p1 p2 payload))
    \<longrightarrow> (\<exists>e. sendToDevice transport log instruction p1 p2 payload
                = (log @ take (Suc k) (ApduFramer instruction p1 p2 payload), Inl e)))"
proof (intro conjI impI)
  assume "sendToDevice transport log instruction p1 p2 payload = (log', r)"
  then show "\<exists>fs. fs \<noteq> [] \<and> log' = log @ fs
          \<and> take (length fs) (ApduFramer instruction p1 p2 payload) = fs
          \<and> (\<forall>i. Suc i < length fs \<longrightarrow> replyOk transport (log @ take (Suc i) fs))
          \<and> (isl r \<longleftrightarrow> \<not> replyOk transport log')"
    by (rule sendToDevice_trace_prefix)
next
  assume run: "signTransaction fromString transport log path txBuffer = (log'', s)"
  show "\<exists>fs. log'' = log @ fs
          \<and> (\<forall>i. Suc i < length fs \<longrightarrow> replyOk transport (log @ take (Suc i) fs))
          \<and> (if fs = [] then isl s else (isl s \<longleftrightarrow> \<not> replyOk transport log''))"
  proof (cases "pathToBuffer fromString path")
    case (Inl e)
    then have "log'' = log \<and> isl s"
      using run by (auto simp: signTransaction_no_path)
    then show ?thesis by (intro exI [of _ "[]"]) simp
  next
    case (Inr pathBuffer)
    define fs where
      "fs = ApduFramer INS_SIGN_TX P1_START P2_MORE pathBuffer @ ApduFramer INS_SIGN_TX 1 P2_LAST txBuffer"
    obtain l x where ex: "exchangeFrames transport log fs = (l, x)"
      by (cases "exchangeFrames transport log fs") auto
    have ne: "fs \<noteq> []" by (simp add: fs_def ApduFramer_nonempty)
    have same: "log'' = l \<and> isl s = isl x"
      using run ex unfolding signTransaction_refines [OF Inr] fs_def [symmetric]
      by (auto split: sum.splits)
    from exchangeFrames_trace [OF ne ex] obtain j where j:
      "0 < j" "j \<le> length fs" "l = log @ take j fs"
      "\<forall>i. Suc i < j \<longrightarrow> replyOk transport (log @ take (Suc i) fs)"
      "isl x \<longleftrightarrow> \<not> replyOk transport l"
      by blast
    have 1: "take j fs \<noteq> []" using j(1) ne by simp
    have 2: "\<forall>i. Suc i < length (take j fs) \<longrightarrow> replyOk transport (log @ take (Suc i) (take j fs))"
      using j(2,4) by (rule prefix_replies)
    have 3: "log'' = log @ take j fs" using same j(3) by simp
    have 4: "isl s \<longleftrightarrow> \<not> replyOk transport log''" using same j(5) by simp
    show ?thesis using 1 2 3 4 by (intro exI [of _ "take j fs"]) simp
  qed
next
  assume "k < length (ApduFramer instruction p1 p2 payload)
      \<and> (\<forall>i<k. replyOk transport (log @ take (Suc i) (ApduFramer instruction p1 p2 payload)))
      \<and> \<not> replyOk transport (log @ take (Suc k) (ApduFramer instruction p1 p2 payload))"
  then show "\<exists>e. sendToDevice transport log instruction p1 p2 payload
                = (log @ take (Suc k) (ApduFramer instruction p1 p2 payload), Inl e)"
    unfolding sendToDevice_refines by (intro exchangeFrames_first_failure) simp_all
qed

text \<open>
  Claim C6. A frame is answered with success when the transport returns a reply of at
  least two bytes whose last two bytes, read big-endian, are \<open>0x9000\<close>. Whatever the
  transport answers, the frames that \<open>sendToDevice\<close> has sent when it ends are the leading
  frames of the payload, in order; every frame before the last one sent was answered with
  success, so no frame follows a reply whose status is not \<open>0x9000\<close>; and the call ends
  with a throw, not a result, exactly when the last frame sent was not answered with
  success. The same holds for the frames of both exchanges of \<open>signTransaction\<close> taken
  together; when the path cannot be encoded nothing is sent and the call throws. Put the
  other way round: when the first \<open>k\<close> frames of a payload are answered with success and
  the next one is not, \<open>sendToDevice\<close> sends exactly those \<open>k + 1\<close> frames and throws.
\<close>

theorem abort_on_failure:
  "(answeredWithSuccess transport h \<longleftrightarrow>
      (\<exists>reply. transport h = Inr reply \<and> 2 \<le> length reply
          \<and> unat (reply ! (length reply - 2)) * 256 + unat (reply ! (length reply - 1)) = 0x9000))
   \<and> (sendToDevice transport log instruction p1 p2 payload = (log', r) \<longrightarrow>
      (\<exists>fs. fs \<noteq> [] \<and> log' = log @ fs
          \<and> take (length fs) (ApduFramer instruction p1 p2 payload) = fs
          \<and> (\<forall>i. Suc i < length fs \<longrightarrow> answeredWithSuccess transport (log @ take (Suc i) fs))
          \<and> (isl r \<longleftrightarrow> \<not> answeredWithSuccess transport log')))
   \<and> (signTransaction fromString transport log path txBuffer = (log'', s) \<longrightarrow>
      (\<exists>fs. log'' = log @ fs
          \<and> (\<forall>i. Suc i < length fs \<longrightarrow> answeredWithSuccess transport (log @ take (Suc i) fs))
          \<and> (if fs = [] then isl s else (isl s \<longleftrightarrow> \<not> answeredWithSuccess transport log''))))
   \<and> (k < length (ApduFramer instruction p1 p2 payload)
      \<and> (\<forall>i<k. answeredWithSuccess transport (log @ take (Suc i) (ApduFramer instruction p1 p2 payload)))
      \<and> \<not> answeredWithSuccess transport (log @ take (Suc k) (ApduFramer instruction p1 p2 payload))
    \<longrightarrow> (\<exists>e. sendToDevice transport log instruction p1 p2 payload
                = (log @ take (Suc k) (ApduFramer instruction p1 p2 payload), Inl e)))"
proof -
  have "answeredWithSuccess transport h \<longleftrightarrow>
      (\<exists>reply. transport h = Inr reply \<and> 2 \<le> length reply
          \<and> unat (reply ! (length reply - 2)) * 256 + unat (reply ! (length reply - 1)) = 0x9000)"
    by (cases "transport h") (simp_all add: answeredWithSuccess_def statusOf_def)
  then show ?thesis
    using abort_checked [of transport log instruction p1 p2 payload log' r fromString path txBuffer log'' s k]
    unfolding replyOk_status by blast
qed

text \<open>
  A transaction of 600 bytes against a mock transport that answers the second frame with
  the status \<open>0x6985\<close>: the path frame and the first transaction frame are sent, the
  other two are not, and the call throws.
\<close>

theorem abort_on_failure_witness:
  "signTransaction bip32_fromString (mockTransportStatusAt 2 0x69 0x85 []) [] ''m/44/637/0/0/0'' (replicate 600 1)
     = ([frame INS_SIGN_TX 0 P2_MORE [5, 0x80, 0, 0, 0x2C, 0x80, 0, 0x02, 0x7D, 0x80, 0, 0, 0, 0x80, 0, 0, 0, 0x80, 0, 0, 0],
         frame INS_SIGN_TX 1 P2_MORE (replicate 255 1)],
        Inl (Error ''Failure with status code: 0x6985''))
   \<and> statusOf [0x69, 0x85] = 0x6985
   \<and> \<not> answeredWithSuccess (mockTransportStatusAt 2 0x69 0x85 [])
         [frame INS_SIGN_TX 0 P2_MORE [5, 0x80, 0, 0, 0x2C, 0x80, 0, 0x02, 0x7D, 0x80, 0, 0, 0, 0x80, 0, 0, 0, 0x80, 0, 0, 0],
          frame INS_SIGN_TX 1 P2_MORE (replicate 255 1)]
   \<and> sendToDevice (mockTransportStatusAt 2 0x69 0x85 []) [] INS_SIGN_TX 1 P2_LAST (replicate 600 1)
     = ([frame INS_SIGN_TX 1 P2_MORE (replicate 255 1), frame INS_SIGN_TX 2 P2_MORE (replicate 255 1)],
        Inl (Error ''Failure with status code: 0x6985''))"
proof -
  let ?t = "mockTransportStatusAt 2 0x69 0x85 []"
  let ?pb = "[5, 0x80, 0, 0, 0x2C, 0x80, 0, 0x02, 0x7D, 0x80, 0, 0, 0, 0x80, 0, 0, 0, 0x80, 0, 0, 0] :: byte list"
  have hex: "toString16 0x6985 = ''6985''" by (simp add: toString16.simps hexDigit_def)
  have path: "pathToBuffer bip32_fromString ''m/44/637/0/0/0'' = Inr ?pb" by code_simp
  have sign: "signTransaction bip32_fromString ?t [] ''m/44/637/0/0/0'' (replicate 600 1)
     = ([frame INS_SIGN_TX 0 P2_MORE ?pb, frame INS_SIGN_TX 1 P2_MORE (replicate 255 1)],
        Inl (Error ''Failure with status code: 0x6985''))"
    by (simp add: signTransaction_refines [OF path] ApduFramer.simps mockTransportStatusAt_def
                  throwOnFailure_status statusOf_def hex P1_START_def)
  have send: "sendToDevice ?t [] INS_SIGN_TX 1 P2_LAST (replicate 600 1)
     = ([frame INS_SIGN_TX 1 P2_MORE (replicate 255 1), frame INS_SIGN_TX 2 P2_MORE (replicate 255 1)],
        Inl (Error ''Failure with status code: 0x6985''))"
    by (simp add: sendToDevice_refines ApduFramer.simps mockTransportStatusAt_def
                  throwOnFailure_status statusOf_def hex)
  note t = abort_on_failure [of ?t "[frame INS_SIGN_TX 0 P2_MORE ?pb, frame INS_SIGN_TX 1 P2_MORE (replicate 255 1)]"
                            "[]" INS_SIGN_TX 1 P2_LAST "replicate 600 1"
                            "[frame INS_SIGN_TX 1 P2_MORE (replicate 255 1), frame INS_SIGN_TX 2 P2_MORE (replicate 255 1)]"
                            "Inl (Error ''Failure with status code: 0x6985'')"
                            bip32_fromString "''m/44/637/0/0/0''" "replicate 600 1"
                            "[frame INS_SIGN_TX 0 P2_MORE ?pb, frame INS_SIGN_TX 1 P2_MORE (replicate 255 1)]"
                            "Inl (Error ''Failure with status code: 0x6985'')"]
  from t [THEN conjunct2, THEN conjunct2, THEN conjunct1, rule_format, OF sign]
  obtain fs where fs: "[frame INS_SIGN_TX 0 P2_MORE ?pb, frame INS_SIGN_TX 1 P2_MORE (replicate 255 1)] = [] @ fs"
    "if fs = [] then isl (Inl (Error ''Failure with status code: 0x6985'') :: error + SignResult)
     else (isl (Inl (Error ''Failure with status code: 0x6985'') :: error + SignResult)
           \<longleftrightarrow> \<not> answeredWithSuccess ?t [frame INS_SIGN_TX 0 P2_MORE ?pb, frame INS_SIGN_TX 1 P2_MORE (replicate 255 1)])"
    by blast
  have "fs \<noteq> []" using fs(1) by auto
  then have "\<not> answeredWithSuccess ?t [frame INS_SIGN_TX 0 P2_MORE ?pb, frame INS_SIGN_TX 1 P2_MORE (replicate 255 1)]"
    using fs(2) by simp
  moreover have "statusOf [0x69, 0x85] = 0x6985" by (simp add: statusOf_def)
  ultimately show ?thesis using sign send by simp
qed

text \<open>
  Claim C4, as the code has it. A call of \<open>signTransaction\<close> that returns has sent, in
  order, the frames of the encoded path with instruction \<open>SIGN_TX\<close>, from \<open>p1 = 0\<close>, all
  marked \<open>P2_MORE\<close>, and then the frames of the transaction bytes from \<open>p1 = 1\<close>, the last
  one marked \<open>P2_LAST\<close>. The path goes in a single frame whenever its encoding has at most
  255 bytes; a longer one is cut like any payload. Every frame was answered with success;
  the result is read from the reply to the final frame alone: byte 0 of its body is the
  signature length, and the signature is the bytes after it, at most that many.
\<close>

theorem signTransaction_exchanges:
  assumes "signTransaction fromString transport log path txBuffer = (log', Inr res)"
  shows "\<exists>pathBuffer reply.
       pathToBuffer fromString path = Inr pathBuffer
     \<and> log' = log @ ApduFramer INS_SIGN_TX P1_START P2_MORE pathBuffer
                  @ ApduFramer INS_SIGN_TX 1 P2_LAST txBuffer
     \<and> (length pathBuffer \<le> 255 \<longrightarrow>
          ApduFramer INS_SIGN_TX P1_START P2_MORE pathBuffer = [frame INS_SIGN_TX 0x00 0x80 pathBuffer])
     \<and> (\<forall>i < length (ApduFramer INS_SIGN_TX P1_START P2_MORE pathBuffer
                        @ ApduFramer INS_SIGN_TX 1 P2_LAST txBuffer).
            replyOk transport (log @ take (Suc i) (ApduFramer INS_SIGN_TX P1_START P2_MORE pathBuffer
                                                    @ ApduFramer INS_SIGN_TX 1 P2_LAST txBuffer)))
     \<and> transport log' = Inr reply \<and> 2 \<le> length reply \<and> statusOf reply = 0x9000
     \<and> signature res = (if length reply = 2 then []
                        else take (unat (reply ! 0)) (drop 1 (take (length reply - 2) reply)))"
proof -
  obtain pathBuffer where pb: "pathToBuffer fromString path = Inr pathBuffer"
    using assms by (cases "pathToBuffer fromString path") (auto simp: signTransaction_no_path)
  define fs where
    "fs = ApduFramer INS_SIGN_TX P1_START P2_MORE pathBuffer @ ApduFramer INS_SIGN_TX 1 P2_LAST txBuffer"
  have ne: "fs \<noteq> []" by (simp add: fs_def ApduFramer_nonempty)
  obtain body where ex: "exchangeFrames transport log fs = (log', Inr body)"
    and sig: "signature res = (if body = [] then [] else take (unat (body ! 0)) (drop 1 body))"
    using assms unfolding signTransaction_refines [OF pb] fs_def [symmetric]
    by (cases "exchangeFrames transport log fs") (auto split: sum.splits)
  from exchangeFrames_Inr [OF ne ex] obtain reply where r:
    "log' = log @ fs" "\<forall>i<length fs. replyOk transport (log @ take (Suc i) fs)"
    "transport log' = Inr reply" "2 \<le> length reply" "body = take (length reply - 2) reply"
    by blast
  have "length fs - 1 < length fs" using ne by simp
  from r(2) [rule_format, OF this]
  have "replyOk transport log'" using r(1) ne by simp
  then have "throwOnFailure reply = Inr ()" using r(3) by (simp add: replyOk_def)
  then have status: "statusOf reply = 0x9000"
    using throwOnFailure_status [OF r(4)] by (simp split: if_splits)
  have single: "length pathBuffer \<le> 255 \<longrightarrow>
          ApduFramer INS_SIGN_TX P1_START P2_MORE pathBuffer = [frame INS_SIGN_TX 0x00 0x80 pathBuffer]"
    by (subst ApduFramer.simps) (simp add: P1_START_def P2_MORE_def)
  have sig': "signature res = (if length reply = 2 then []
                        else take (unat (reply ! 0)) (drop 1 (take (length reply - 2) reply)))"
    using sig r(4,5) by auto
  show ?thesis
    using pb r(1,2,3,4) status single sig' unfolding fs_def by blast
qed

text \<open>
  The path \<open>m/44'/637'/0'/0'/0'\<close> (written without markers) and a transaction of 600 bytes
  against the mock transport: four frames, and the signature of the final reply.
\<close>

theorem signTransaction_exchanges_witness:
  "signTransaction bip32_fromString (mockTransport [2, 7, 8, 9]) [] ''m/44/637/0/0/0'' (replicate 600 1)
     = ([frame INS_SIGN_TX 0 P2_MORE [5, 0x80, 0, 0, 0x2C, 0x80, 0, 0x02, 0x7D, 0x80, 0, 0, 0, 0x80, 0, 0, 0, 0x80, 0, 0, 0],
         frame INS_SIGN_TX 1 P2_MORE (replicate 255 1),
         frame INS_SIGN_TX 2 P2_MORE (replicate 255 1),
         frame INS_SIGN_TX 3 P2_LAST (replicate 90 1)],
        Inr \<lparr>signature = [7, 8]\<rparr>)
   \<and> (\<exists>reply. mockTransport [2, 7, 8, 9]
          [frame INS_SIGN_TX 0 P2_MORE [5, 0x80, 0, 0, 0x2C, 0x80, 0, 0x02, 0x7D, 0x80, 0, 0, 0, 0x80, 0, 0, 0, 0x80, 0, 0, 0],
           frame INS_SIGN_TX 1 P2_MORE (replicate 255 1),
           frame INS_SIGN_TX 2 P2_MORE (replicate 255 1),
           frame INS_SIGN_TX 3 P2_LAST (replicate 90 1)] = Inr reply \<and> statusOf reply = 0x9000)"
proof -
  let ?pb = "[5, 0x80, 0, 0, 0x2C, 0x80, 0, 0x02, 0x7D, 0x80, 0, 0, 0, 0x80, 0, 0, 0, 0x80, 0, 0, 0] :: byte list"
  have path: "pathToBuffer bip32_fromString ''m/44/637/0/0/0'' = Inr ?pb" by code_simp
  have run: "signTransaction bip32_fromString (mockTransport [2, 7, 8, 9]) [] ''m/44/637/0/0/0'' (replicate 600 1)
     = ([frame INS_SIGN_TX 0 P2_MORE ?pb,
         frame INS_SIGN_TX 1 P2_MORE (replicate 255 1),
         frame INS_SIGN_TX 2 P2_MORE (replicate 255 1),
         frame INS_SIGN_TX 3 P2_LAST (replicate 90 1)],
        Inr \<lparr>signature = [7, 8]\<rparr>)"
    by (simp add: signTransaction_refines [OF path] ApduFramer.simps mockTransport_def
                  throwOnFailure_status statusOf_def P1_START_def)
  from signTransaction_exchanges [OF run] show ?thesis using run by blast
qed

text \<open>
  A path of 64 elements is encoded in 257 bytes, which the first exchange sends in two
  frames: the call sends three frames for a transaction of one byte, not two.
\<close>

theorem signTransaction_single_frame_counterexample:
  "pathToBuffer bip32_fromString (join_str ''/'' (replicate 64 ''0''))
     = Inr (64 # concat (replicate 64 [0x80, 0, 0, 0]))
   \<and> signTransaction bip32_fromString (mockTransport [0]) [] (join_str ''/'' (replicate 64 ''0'')) [1]
     = ([frame INS_SIGN_TX 0 P2_MORE (take 255 (64 # concat (replicate 64 [0x80, 0, 0, 0]))),
         frame INS_SIGN_TX 1 P2_MORE [0, 0],
         frame INS_SIGN_TX 1 P2_LAST [1]],
        Inr \<lparr>signature = []\<rparr>)
   \<and> fst (signTransaction bip32_fromString (mockTransport [0]) [] (join_str ''/'' (replicate 64 ''0'')) [1])
     \<noteq> [frame INS_SIGN_TX P1_START P2_MORE (64 # concat (replicate 64 [0x80, 0, 0, 0])),
         frame INS_SIGN_TX 1 P2_LAST [1]]"
proof -
  define pb :: "byte list" where "pb = 64 # concat (replicate 64 [0x80, 0, 0, 0])"
  have path: "pathToBuffer bip32_fromString (join_str ''/'' (replicate 64 ''0'')) = Inr pb"
    unfolding pb_def by code_simp
  have len: "length pb = 257" unfolding pb_def by code_simp
  have rest: "drop 255 pb = [0, 0]" unfolding pb_def by code_simp
  have run: "signTransaction bip32_fromString (mockTransport [0]) [] (join_str ''/'' (replicate 64 ''0'')) [1]
     = ([frame INS_SIGN_TX 0 P2_MORE (take 255 pb), frame INS_SIGN_TX 1 P2_MORE [0, 0],
         frame INS_SIGN_TX 1 P2_LAST [1]], Inr \<lparr>signature = []\<rparr>)"
    unfolding signTransaction_refines [OF path]
    by (simp add: ApduFramer.simps len rest mockTransport_def throwOnFailure_status statusOf_def P1_START_def)
  show ?thesis
    using path run unfolding pb_def by simp
qed

section \<open>Parsing the public-key response\<close>

lemma subarray_first:
  "body \<noteq> [] \<Longrightarrow> subarray body (Some 0) (Some 1) = [body ! 0]"
  by (cases body) (simp_all add: subarray_def adjustOffset_def)

lemma subarray_empty [simp]: "subarray [] start end = []"
  by (simp add: subarray_def)

lemma subarray_one:
  "subarray body (Some (int a)) (Some (int a + 1)) = (if a < length body then [body ! a] else [])"
proof -
  have "subarray body (Some (int a)) (Some (int (a + 1))) = take (a + 1 - a) (drop a body)"
    by (rule subarray_nat)
  then have "subarray body (Some (int a)) (Some (int a + 1)) = take 1 (drop a body)"
    by (simp add: ac_simps)
  also have "\<dots> = (if a < length body then [body ! a] else [])"
    by (simp add: Cons_nth_drop_Suc [symmetric])
  finally show ?thesis .
qed

lemma publicKey_slice:
  assumes "body \<noteq> []"
  shows "subarray body (plus_number (Some 1) (Some 1))
           (plus_number (plus_number (Some 1) (Some 1))
              (plus_number (byteAt (subarray body (Some 0) (Some 1)) 0) (Some (- 1))))
         = take (unat (body ! 0) - 1) (drop 2 body)"
proof -
  have "subarray body (Some (int 2)) (Some (int (unat (body ! 0) + 1)))
          = take (unat (body ! 0) + 1 - 2) (drop 2 body)"
    by (rule subarray_nat)
  then show ?thesis
    using assms by (simp add: subarray_first byteAt_def plus_number_def)
qed

lemma chainCode_slice:
  assumes "body \<noteq> []"
  shows "subarray body
           (plus_number (plus_number (plus_number (Some 1) (Some 1))
              (plus_number (byteAt (subarray body (Some 0) (Some 1)) 0) (Some (- 1)))) (Some 1))
           (plus_number
              (plus_number (plus_number (plus_number (Some 1) (Some 1))
                 (plus_number (byteAt (subarray body (Some 0) (Some 1)) 0) (Some (- 1)))) (Some 1))
              (byteAt (subarray body
                         (plus_number (plus_number (Some 1) (Some 1))
                            (plus_number (byteAt (subarray body (Some 0) (Some 1)) 0) (Some (- 1))))
                         (plus_number (plus_number (plus_number (Some 1) (Some 1))
                            (plus_number (byteAt (subarray body (Some 0) (Some 1)) 0) (Some (- 1)))) (Some 1))) 0))
         = (if unat (body ! 0) + 1 < length body
            then take (unat (body ! (unat (body ! 0) + 1))) (drop (unat (body ! 0) + 2) body)
            else [])"
proof -
  define L1 where "L1 = unat (body ! 0)"
  have o2: "plus_number (plus_number (Some 1) (Some 1))
              (plus_number (byteAt (subarray body (Some 0) (Some 1)) 0) (Some (- 1))) = Some (int (L1 + 1))"
    using assms by (simp add: subarray_first byteAt_def plus_number_def L1_def)
  have o3: "plus_number (Some (int (L1 + 1))) (Some 1) = Some (int (L1 + 1) + 1)"
    by (simp add: plus_number_def)
  have len: "byteAt (subarray body (Some (int (L1 + 1))) (Some (int (L1 + 1) + 1))) 0
               = (if L1 + 1 < length body then Some (int (unat (body ! (L1 + 1)))) else None)"
    by (simp only: subarray_one) (simp add: byteAt_def)
  show ?thesis
  proof (cases "L1 + 1 < length body")
    case True
    have "subarray body (Some (int (L1 + 2))) (Some (int (L1 + 2 + unat (body ! (L1 + 1)))))
            = take (L1 + 2 + unat (body ! (L1 + 1)) - (L1 + 2)) (drop (L1 + 2) body)"
      by (rule subarray_nat)
    then have "subarray body (Some (int (L1 + 1) + 1))
                 (plus_number (Some (int (L1 + 1) + 1)) (Some (int (unat (body ! (L1 + 1))))))
            = take (unat (body ! (L1 + 1))) (drop (L1 + 2) body)"
      by (simp add: plus_number_def ac_simps)
    then show ?thesis
      unfolding o2 o3 len using True by (simp add: L1_def)
  next
    case False
    then show ?thesis
      unfolding o2 o3 len by (simp add: L1_def plus_number_def subarray_NaN_end)
  qed
qed

lemma getAddress_no_path:
  "pathToBuffer fromString path = Inl e \<Longrightarrow>
   getAddress fromString sha3 transport log path display = (log, Inl e)"
  by (simp add: getAddress_def)

lemma getAddress_no_reply:
  "pathToBuffer fromString path = Inr pathBuffer \<Longrightarrow>
   sendToDevice transport log INS_GET_PUBLIC_KEY (if display then P1_CONFIRM else P1_NON_CONFIRM)
     P2_LAST pathBuffer = (log', Inl e) \<Longrightarrow>
   getAddress fromString sha3 transport log path display = (log', Inl e)"
  by (simp add: getAddress_def)

lemma publicKeyToAddress_eq: "publicKeyToAddress sha3 pubKey = sha3 (pubKey @ [0])"
  by (simp add: publicKeyToAddress_def hash_create_def hash_update_def hash_digest_def)

lemma getAddress_result:
  assumes "pathToBuffer fromString path = Inr pathBuffer"
    and "sendToDevice transport log INS_GET_PUBLIC_KEY (if display then P1_CONFIRM else P1_NON_CONFIRM)
           P2_LAST pathBuffer = (log', Inr body)"
  shows "getAddress fromString sha3 transport log path display
     = (log', Inr \<lparr>publicKey = (if body = [] then [] else take (unat (body ! 0) - 1) (drop 2 body)),
                   chainCode = (if body \<noteq> [] \<and> unat (body ! 0) + 1 < length body
                                then take (unat (body ! (unat (body ! 0) + 1))) (drop (unat (body ! 0) + 2) body)
                                else []),
                   address = ''0x'' @ toString_hex
                     (sha3 ((if body = [] then [] else take (unat (body ! 0) - 1) (drop 2 body)) @ [0]))\<rparr>)"
proof (cases "body = []")
  case True
  then show ?thesis
    using assms by (simp add: getAddress_def Let_def publicKeyToAddress_eq)
next
  case False
  show ?thesis
    using assms False
    by (simp add: getAddress_def Let_def publicKeyToAddress_eq publicKey_slice chainCode_slice)
qed

lemma length_paddingDigest: "length (paddingDigest message) = 32"
  by (auto simp: paddingDigest_def min_def)

text \<open>
  Claim C1, as the code has it. When the body of the response (the reply without its
  status) is not empty and its first byte is \<open>L1\<close>, \<open>getAddress\<close> returns as
  \<open>publicKey\<close> the bytes \<open>[2, L1 + 1)\<close> of the body: the cursor skips the length byte and
  one more byte, the first of the key field. The byte at position \<open>L1 + 1\<close>, right after
  the key, is the chain-code length \<open>L2\<close>, and \<open>chainCode\<close> is the \<open>L2\<close> bytes after it.
  When the body holds all of them the key has \<open>L1 - 1\<close> bytes and the chain code \<open>L2\<close>.
\<close>

theorem getAddress_fields:
  assumes "pathToBuffer fromString path = Inr pathBuffer"
    and "sendToDevice transport log INS_GET_PUBLIC_KEY (if display then P1_CONFIRM else P1_NON_CONFIRM)
           P2_LAST pathBuffer = (log', Inr body)"
    and "body \<noteq> []"
    and "L1 = unat (body ! 0)"
    and "L2 = unat (body ! (L1 + 1))"
  shows "\<exists>res. getAddress fromString sha3 transport log path display = (log', Inr res)
     \<and> publicKey res = take (L1 - 1) (drop 2 body)
     \<and> (L1 + 1 < length body \<longrightarrow> chainCode res = take L2 (drop (L1 + 2) body))
     \<and> (1 \<le> L1 \<and> L1 + 2 + L2 \<le> length body \<longrightarrow>
           length (publicKey res) = L1 - 1
         \<and> (\<forall>i<L1 - 1. publicKey res ! i = body ! (2 + i))
         \<and> length (chainCode res) = L2
         \<and> (\<forall>i<L2. chainCode res ! i = body ! (L1 + 2 + i)))"
proof -
  let ?res = "\<lparr>publicKey = take (L1 - 1) (drop 2 body),
               chainCode = (if L1 + 1 < length body then take L2 (drop (L1 + 2) body) else []),
               address = ''0x'' @ toString_hex (sha3 (take (L1 - 1) (drop 2 body) @ [0]))\<rparr>"
  have run: "getAddress fromString sha3 transport log path display = (log', Inr ?res)"
    using getAddress_result [OF assms(1,2), of sha3] assms(3,4,5) by simp
  have full: "length (publicKey ?res) = L1 - 1
         \<and> (\<forall>i<L1 - 1. publicKey ?res ! i = body ! (2 + i))
         \<and> length (chainCode ?res) = L2
         \<and> (\<forall>i<L2. chainCode ?res ! i = body ! (L1 + 2 + i))"
    if "1 \<le> L1 \<and> L1 + 2 + L2 \<le> length body"
    using that by (auto simp: min_def)
  show ?thesis
    using run full by (intro exI [of _ ?res]) simp
qed

text \<open>
  The body \<open>[3, 4, AA, BB, 1, CC]\<close>: a key field of three bytes whose first byte is
  skipped, the key \<open>AA BB\<close>, and a chain code of one byte.
\<close>

theorem getAddress_fields_witness:
  "getAddress bip32_fromString paddingDigest (mockTransport [3, 4, 0xAA, 0xBB, 1, 0xCC]) []
     ''m/44/637/0/0/0'' False
   = ([frame INS_GET_PUBLIC_KEY P1_NON_CONFIRM P2_LAST
         [5, 0x80, 0, 0, 0x2C, 0x80, 0, 0x02, 0x7D, 0x80, 0, 0, 0, 0x80, 0, 0, 0, 0x80, 0, 0, 0]],
      Inr \<lparr>publicKey = [0xAA, 0xBB], chainCode = [0xCC],
           address = ''0x'' @ toString_hex (paddingDigest [0xAA, 0xBB, 0])\<rparr>)"
proof -
  let ?pb = "[5, 0x80, 0, 0, 0x2C, 0x80, 0, 0x02, 0x7D, 0x80, 0, 0, 0, 0x80, 0, 0, 0, 0x80, 0, 0, 0] :: byte list"
  let ?body = "[3, 4, 0xAA, 0xBB, 1, 0xCC] :: byte list"
  have path: "pathToBuffer bip32_fromString ''m/44/637/0/0/0'' = Inr ?pb" by code_simp
  have run: "sendToDevice (mockTransport ?body) [] INS_GET_PUBLIC_KEY
               (if False then P1_CONFIRM else P1_NON_CONFIRM) P2_LAST ?pb
             = ([frame INS_GET_PUBLIC_KEY P1_NON_CONFIRM P2_LAST ?pb], Inr ?body)"
    by (simp add: sendToDevice_refines ApduFramer.simps mockTransport_def throwOnFailure_status statusOf_def)
  have ne: "?body \<noteq> []" by simp
  have l1: "(3::nat) = unat (?body ! 0)" by simp
  have l2: "(1::nat) = unat (?body ! (3 + 1))" by simp
  from getAddress_fields [OF path run ne l1 l2, of paddingDigest] obtain res where
    r: "getAddress bip32_fromString paddingDigest (mockTransport ?body) [] ''m/44/637/0/0/0'' False
          = ([frame INS_GET_PUBLIC_KEY P1_NON_CONFIRM P2_LAST ?pb], Inr res)"
       "publicKey res = take (3 - 1) (drop 2 ?body)"
       "3 + 1 < length ?body \<longrightarrow> chainCode res = take 1 (drop (3 + 2) ?body)"
    by blast
  have "address res = ''0x'' @ toString_hex (paddingDigest [0xAA, 0xBB, 0])"
    using r(1) getAddress_result [OF path run, of paddingDigest] by auto
  then have "res = \<lparr>publicKey = [0xAA, 0xBB], chainCode = [0xCC],
                     address = ''0x'' @ toString_hex (paddingDigest [0xAA, 0xBB, 0])\<rparr>"
    using r(2,3) by simp
  then show ?thesis using r(1) by simp
qed

text \<open>
  On the same body the key is not the bytes \<open>[1, L1)\<close>, which are \<open>04 AA\<close>, and the byte at
  position \<open>L1 = 3\<close> is the last key byte \<open>BB\<close>, not the chain-code length 1.
\<close>

theorem getAddress_fields_counterexample:
  "getAddress bip32_fromString paddingDigest (mockTransport [3, 4, 0xAA, 0xBB, 1, 0xCC]) []
     ''m/44/637/0/0/0'' False
   = ([frame INS_GET_PUBLIC_KEY P1_NON_CONFIRM P2_LAST
         [5, 0x80, 0, 0, 0x2C, 0x80, 0, 0x02, 0x7D, 0x80, 0, 0, 0, 0x80, 0, 0, 0, 0x80, 0, 0, 0]],
      Inr \<lparr>publicKey = [0xAA, 0xBB], chainCode = [0xCC],
           address = ''0x'' @ toString_hex (paddingDigest [0xAA, 0xBB, 0])\<rparr>)
   \<and> [0xAA, 0xBB] \<noteq> take (3 - 1) (drop 1 [3, 4, 0xAA, 0xBB, 1, 0xCC :: byte])
   \<and> [3, 4, 0xAA, 0xBB, 1, 0xCC :: byte] ! 3 \<noteq> 1
   \<and> [0xCC] \<noteq> take (unat ([3, 4, 0xAA, 0xBB, 1, 0xCC :: byte] ! 3)) (drop (3 + 1) [3, 4, 0xAA, 0xBB, 1, 0xCC :: byte])"
proof -
  let ?pb = "[5, 0x80, 0, 0, 0x2C, 0x80, 0, 0x02, 0x7D, 0x80, 0, 0, 0, 0x80, 0, 0, 0, 0x80, 0, 0, 0] :: byte list"
  let ?body = "[3, 4, 0xAA, 0xBB, 1, 0xCC] :: byte list"
  have path: "pathToBuffer bip32_fromString ''m/44/637/0/0/0'' = Inr ?pb" by code_simp
  have run: "sendToDevice (mockTransport ?body) [] INS_GET_PUBLIC_KEY
               (if False then P1_CONFIRM else P1_NON_CONFIRM) P2_LAST ?pb
             = ([frame INS_GET_PUBLIC_KEY P1_NON_CONFIRM P2_LAST ?pb], Inr ?body)"
    by (simp add: sendToDevice_refines ApduFramer.simps mockTransport_def throwOnFailure_status statusOf_def)
  show ?thesis
    using getAddress_result [OF path run, of paddingDigest] by simp
qed

text \<open>
  Claim C2, as the code has it. A declared length that runs past the end of the response
  body makes neither operation fail: \<open>subarray\<close> stops at the end of the buffer. Once the
  path is encoded and the exchange has returned a body, \<open>getAddress\<close> returns a result
  whose \<open>publicKey\<close> has \<open>min (L1 - 1) (length body - 2)\<close> bytes and whose \<open>chainCode\<close> has
  \<open>min L2\<close> of what follows its length byte (none when that byte is itself past the end);
  and once both exchanges have returned, \<open>signTransaction\<close> returns as signature the bytes
  after byte 0 of the final body, at most as many as byte 0 declares. An empty body gives
  empty fields.
\<close>

theorem overrun_is_truncated:
  "(pathToBuffer fromString path = Inr pathBuffer
      \<and> sendToDevice transport log INS_GET_PUBLIC_KEY (if display then P1_CONFIRM else P1_NON_CONFIRM)
            P2_LAST pathBuffer = (log', Inr body)
      \<and> L1 = unat (body ! 0) \<and> L2 = unat (body ! (L1 + 1))
    \<longrightarrow> (\<exists>res. getAddress fromString sha3 transport log path display = (log', Inr res)
          \<and> length (publicKey res) = (if body = [] then 0 else min (L1 - 1) (length body - 2))
          \<and> length (chainCode res)
              = (if body \<noteq> [] \<and> L1 + 1 < length body then min L2 (length body - (L1 + 2)) else 0)))
   \<and> (pathToBuffer fromString path = Inr pathBuffer
      \<and> sendToDevice transport log INS_SIGN_TX P1_START P2_MORE pathBuffer = (log1, Inr body1)
      \<and> sendToDevice transport log1 INS_SIGN_TX 1 P2_LAST txBuffer = (log2, Inr body2)
    \<longrightarrow> signTransaction fromString transport log path txBuffer
          = (log2, Inr \<lparr>signature = (if body2 = [] then [] else take (unat (body2 ! 0)) (drop 1 body2))\<rparr>)
        \<and> length (if body2 = [] then [] else take (unat (body2 ! 0)) (drop 1 body2))
          = (if body2 = [] then 0 else min (unat (body2 ! 0)) (length body2 - 1)))"
proof (intro conjI impI)
  assume a: "pathToBuffer fromString path = Inr pathBuffer
      \<and> sendToDevice transport log INS_GET_PUBLIC_KEY (if display then P1_CONFIRM else P1_NON_CONFIRM)
            P2_LAST pathBuffer = (log', Inr body)
      \<and> L1 = unat (body ! 0) \<and> L2 = unat (body ! (L1 + 1))"
  then have p: "pathToBuffer fromString path = Inr pathBuffer"
    and s: "sendToDevice transport log INS_GET_PUBLIC_KEY (if display then P1_CONFIRM else P1_NON_CONFIRM)
            P2_LAST pathBuffer = (log', Inr body)"
    by simp_all
  show "\<exists>res. getAddress fromString sha3 transport log path display = (log', Inr res)
          \<and> length (publicKey res) = (if body = [] then 0 else min (L1 - 1) (length body - 2))
          \<and> length (chainCode res)
              = (if body \<noteq> [] \<and> L1 + 1 < length body then min L2 (length body - (L1 + 2)) else 0)"
    using getAddress_result [OF p s, of sha3] a by (auto simp: min_def)
next
  assume a: "pathToBuffer fromString path = Inr pathBuffer
      \<and> sendToDevice transport log INS_SIGN_TX P1_START P2_MORE pathBuffer = (log1, Inr body1)
      \<and> sendToDevice transport log1 INS_SIGN_TX 1 P2_LAST txBuffer = (log2, Inr body2)"
  then show "signTransaction fromString transport log path txBuffer
          = (log2, Inr \<lparr>signature = (if body2 = [] then [] else take (unat (body2 ! 0)) (drop 1 body2))\<rparr>)"
    by (simp add: signTransaction_def Let_def signature_slice)
  show "length (if body2 = [] then [] else take (unat (body2 ! 0)) (drop 1 body2))
          = (if body2 = [] then 0 else min (unat (body2 ! 0)) (length body2 - 1))"
    by (simp add: min.commute)
qed

text \<open>
  A key field declared as 5 bytes in a body of 3, and a signature declared as 10 bytes in a
  body of 3: what is there is returned.
\<close>

theorem overrun_is_truncated_witness:
  "getAddress bip32_fromString paddingDigest (mockTransport [5, 4, 0xAA]) [] ''m/44/637/0/0/0'' False
     = ([frame INS_GET_PUBLIC_KEY P1_NON_CONFIRM P2_LAST
           [5, 0x80, 0, 0, 0x2C, 0x80, 0, 0x02, 0x7D, 0x80, 0, 0, 0, 0x80, 0, 0, 0, 0x80, 0, 0, 0]],
        Inr \<lparr>publicKey = [0xAA], chainCode = [],
             address = ''0x'' @ toString_hex (paddingDigest [0xAA, 0])\<rparr>)
   \<and> signTransaction bip32_fromString (mockTransport [10, 1, 2]) [] ''m/44/637/0/0/0'' [1]
     = ([frame INS_SIGN_TX P1_START P2_MORE
           [5, 0x80, 0, 0, 0x2C, 0x80, 0, 0x02, 0x7D, 0x80, 0, 0, 0, 0x80, 0, 0, 0, 0x80, 0, 0, 0],
         frame INS_SIGN_TX 1 P2_LAST [1]],
        Inr \<lparr>signature = [1, 2]\<rparr>)"
proof -
  let ?pb = "[5, 0x80, 0, 0, 0x2C, 0x80, 0, 0x02, 0x7D, 0x80, 0, 0, 0, 0x80, 0, 0, 0, 0x80, 0, 0, 0] :: byte list"
  let ?body = "[5, 4, 0xAA] :: byte list"
  let ?f1 = "frame INS_SIGN_TX P1_START P2_MORE ?pb"
  have path: "pathToBuffer bip32_fromString ''m/44/637/0/0/0'' = Inr ?pb" by code_simp
  have run: "sendToDevice (mockTransport ?body) [] INS_GET_PUBLIC_KEY
               (if False then P1_CONFIRM else P1_NON_CONFIRM) P2_LAST ?pb
             = ([frame INS_GET_PUBLIC_KEY P1_NON_CONFIRM P2_LAST ?pb], Inr ?body)"
    by (simp add: sendToDevice_refines ApduFramer.simps mockTransport_def throwOnFailure_status statusOf_def)
  have ex1: "sendToDevice (mockTransport [10, 1, 2]) [] INS_SIGN_TX P1_START P2_MORE ?pb
               = ([?f1], Inr [10, 1, 2])"
    by (simp add: sendToDevice_refines ApduFramer.simps mockTransport_def throwOnFailure_status statusOf_def)
  have ex2: "sendToDevice (mockTransport [10, 1, 2]) [?f1] INS_SIGN_TX 1 P2_LAST [1]
               = ([?f1, frame INS_SIGN_TX 1 P2_LAST [1]], Inr [10, 1, 2])"
    by (simp add: sendToDevice_refines ApduFramer.simps mockTransport_def throwOnFailure_status statusOf_def)
  have l1: "(5::nat) = unat (?body ! 0)" by simp
  have sign: "signTransaction bip32_fromString (mockTransport [10, 1, 2]) [] ''m/44/637/0/0/0'' [1]
     = ([?f1, frame INS_SIGN_TX 1 P2_LAST [1]], Inr \<lparr>signature = [1, 2]\<rparr>)"
    using overrun_is_truncated [of bip32_fromString "''m/44/637/0/0/0''" ?pb "mockTransport [10, 1, 2]" "[]"
            False "[]" "[]" 0 0 paddingDigest "[?f1]" "[10, 1, 2]" "[1]" "[?f1, frame INS_SIGN_TX 1 P2_LAST [1]]" "[10, 1, 2]",
            THEN conjunct2, rule_format, OF conjI [OF path conjI [OF ex1 ex2]], THEN conjunct1]
    by simp
  have l2: "unat (?body ! (5 + 1)) = unat (?body ! (5 + 1))" by (rule refl)
  from overrun_is_truncated [of bip32_fromString "''m/44/637/0/0/0''" ?pb "mockTransport ?body" "[]"
            False "[frame INS_GET_PUBLIC_KEY P1_NON_CONFIRM P2_LAST ?pb]" ?body 5 "unat (?body ! (5 + 1))" paddingDigest
            "[]" "[]" "[]" "[]" "[]",
            THEN conjunct1, rule_format, OF conjI [OF path conjI [OF run conjI [OF l1 l2]]]]
  obtain res where r:
    "getAddress bip32_fromString paddingDigest (mockTransport ?body) [] ''m/44/637/0/0/0'' False
       = ([frame INS_GET_PUBLIC_KEY P1_NON_CONFIRM P2_LAST ?pb], Inr res)"
    by blast
  have "res = \<lparr>publicKey = [0xAA], chainCode = [], address = ''0x'' @ toString_hex (paddingDigest [0xAA, 0])\<rparr>"
    using r(1) getAddress_result [OF path run, of paddingDigest] by simp
  then show ?thesis using r(1) sign by simp
qed

text \<open>
  The same two runs against the claim: the declared lengths overrun the body, and both
  calls return a result, not an error.
\<close>

theorem overrun_fails_counterexample:
  "5 - 1 > length (drop 2 [5, 4, 0xAA :: byte])
   \<and> \<not> isl (snd (getAddress bip32_fromString paddingDigest (mockTransport [5, 4, 0xAA]) []
                     ''m/44/637/0/0/0'' False))
   \<and> 10 > length (drop 1 [10, 1, 2 :: byte])
   \<and> \<not> isl (snd (signTransaction bip32_fromString (mockTransport [10, 1, 2]) [] ''m/44/637/0/0/0'' [1]))"
proof -
  let ?pb = "[5, 0x80, 0, 0, 0x2C, 0x80, 0, 0x02, 0x7D, 0x80, 0, 0, 0, 0x80, 0, 0, 0, 0x80, 0, 0, 0] :: byte list"
  let ?body = "[5, 4, 0xAA] :: byte list"
  have path: "pathToBuffer bip32_fromString ''m/44/637/0/0/0'' = Inr ?pb" by code_simp
  have run: "sendToDevice (mockTransport ?body) [] INS_GET_PUBLIC_KEY
               (if False then P1_CONFIRM else P1_NON_CONFIRM) P2_LAST ?pb
             = ([frame INS_GET_PUBLIC_KEY P1_NON_CONFIRM P2_LAST ?pb], Inr ?body)"
    by (simp add: sendToDevice_refines ApduFramer.simps mockTransport_def throwOnFailure_status statusOf_def)
  have sign: "signTransaction bip32_fromString (mockTransport [10, 1, 2]) [] ''m/44/637/0/0/0'' [1]
     = ([frame INS_SIGN_TX P1_START P2_MORE ?pb, frame INS_SIGN_TX 1 P2_LAST [1]], Inr \<lparr>signature = [1, 2]\<rparr>)"
    by (simp add: signTransaction_refines [OF path] ApduFramer.simps mockTransport_def
                  throwOnFailure_status statusOf_def)
  show ?thesis
    using getAddress_result [OF path run, of paddingDigest] sign by simp
qed

section \<open>The address\<close>

text \<open>
  Claim C7. \<open>publicKeyToAddress\<close> returns the digest of the public-key bytes followed by
  one byte of value zero, and nothing else enters it: equal keys give equal digests. The
  digest function itself is the imported \<open>sha3_256\<close>; when it returns 32 bytes, so does
  \<open>publicKeyToAddress\<close>.
\<close>

theorem publicKeyToAddress_digest:
  "publicKeyToAddress sha3 pubKey = sha3 (pubKey @ [0x00])
   \<and> (pubKey' = pubKey \<longrightarrow> publicKeyToAddress sha3 pubKey' = publicKeyToAddress sha3 pubKey)
   \<and> ((\<forall>message. length (sha3 message) = 32) \<longrightarrow> length (publicKeyToAddress sha3 pubKey) = 32)"
  by (simp add: publicKeyToAddress_def hash_create_def hash_update_def hash_digest_def)

text \<open>A key of two bytes, with the stand-in digest of 32 bytes.\<close>

theorem publicKeyToAddress_digest_witness:
  "(\<forall>message. length (paddingDigest message) = 32)
   \<and> publicKeyToAddress paddingDigest [0xAA, 0xBB] = paddingDigest [0xAA, 0xBB, 0x00]
   \<and> length (publicKeyToAddress paddingDigest [0xAA, 0xBB]) = 32"
proof -
  have d: "\<forall>message. length (paddingDigest message) = 32" by (simp add: length_paddingDigest)
  from publicKeyToAddress_digest [of paddingDigest "[0xAA, 0xBB]" "[0xAA, 0xBB]"] d
  show ?thesis by simp
qed

lemma length_toString_hex: "length (toString_hex buf) = 2 * length buf"
  by (induction buf) (simp_all add: toString_hex_def)

lemma hexDigit_in: "d < 16 \<Longrightarrow> hexDigit d \<in> set ''0123456789abcdef''"
  unfolding hexDigit_def by (rule nth_mem) simp

lemma set_toString_hex: "set (toString_hex buf) \<subseteq> set ''0123456789abcdef''"
proof (induction buf)
  case Nil
  then show ?case by (simp add: toString_hex_def)
next
  case (Cons b bs)
  have "unat b < 2 ^ LENGTH(8)" by (rule unsigned_less)
  then have "unat b < 256" by simp
  then have "unat b div 16 < 16" "unat b mod 16 < 16" by simp_all
  then have "hexDigit (unat b div 16) \<in> set ''0123456789abcdef''"
            "hexDigit (unat b mod 16) \<in> set ''0123456789abcdef''"
    by (simp_all only: hexDigit_in)
  moreover have "toString_hex (b # bs)
                   = hexDigit (unat b div 16) # hexDigit (unat b mod 16) # toString_hex bs"
    by (simp add: toString_hex_def)
  ultimately show ?case using Cons.IH by simp
qed

text \<open>
  Claim C10. With a digest of 32 bytes, the \<open>address\<close> of every result of \<open>getAddress\<close>
  is \<open>0x\<close> followed by the hexadecimal form of the digest of the returned key and a zero
  byte: 64 lower-case hexadecimal digits, whatever the length of the key.
\<close>

theorem address_format:
  assumes "\<forall>message. length (sha3 message) = 32"
    and "getAddress fromString sha3 transport log path display = (log', Inr res)"
  shows "address res = ''0x'' @ toString_hex (sha3 (publicKey res @ [0x00]))
       \<and> length (address res) = 2 + 64
       \<and> take 2 (address res) = ''0x''
       \<and> (\<forall>c \<in> set (drop 2 (address res)). c \<in> set ''0123456789abcdef'')"
proof -
  obtain pathBuffer where p: "pathToBuffer fromString path = Inr pathBuffer"
    using assms(2) by (cases "pathToBuffer fromString path") (auto simp: getAddress_no_path)
  obtain l x where s: "sendToDevice transport log INS_GET_PUBLIC_KEY
                         (if display then P1_CONFIRM else P1_NON_CONFIRM) P2_LAST pathBuffer = (l, x)"
    by (cases "sendToDevice transport log INS_GET_PUBLIC_KEY
                 (if display then P1_CONFIRM else P1_NON_CONFIRM) P2_LAST pathBuffer") auto
  obtain body where b: "x = Inr body"
    using assms(2) getAddress_no_reply [OF p, of transport log display l _ sha3] s
    by (cases x) auto
  have a: "address res = ''0x'' @ toString_hex (sha3 (publicKey res @ [0x00]))"
    using assms(2) getAddress_result [OF p s [unfolded b], of sha3] by auto
  have "length (toString_hex (sha3 (publicKey res @ [0x00]))) = 64"
    using assms(1) by (simp add: length_toString_hex)
  moreover have "\<forall>c \<in> set (toString_hex (sha3 (publicKey res @ [0x00]))). c \<in> set ''0123456789abcdef''"
    using set_toString_hex by blast
  ultimately show ?thesis unfolding a by simp
qed

text \<open>A key of two bytes, with the stand-in digest of 32 bytes.\<close>

theorem address_format_witness:
  "(\<forall>message. length (paddingDigest message) = 32)
   \<and> getAddress bip32_fromString paddingDigest (mockTransport [3, 4, 0xAA, 0xBB, 1, 0xCC]) []
       ''m/44/637/0/0/0'' False
     = ([frame INS_GET_PUBLIC_KEY P1_NON_CONFIRM P2_LAST
           [5, 0x80, 0, 0, 0x2C, 0x80, 0, 0x02, 0x7D, 0x80, 0, 0, 0, 0x80, 0, 0, 0, 0x80, 0, 0, 0]],
        Inr \<lparr>publicKey = [0xAA, 0xBB], chainCode = [0xCC],
             address = ''0xaabb000000000000000000000000000000000000000000000000000000000000''\<rparr>)
   \<and> length ''0xaabb000000000000000000000000000000000000000000000000000000000000'' = 2 + 64"
proof -
  let ?pb = "[5, 0x80, 0, 0, 0x2C, 0x80, 0, 0x02, 0x7D, 0x80, 0, 0, 0, 0x80, 0, 0, 0, 0x80, 0, 0, 0] :: byte list"
  let ?body = "[3, 4, 0xAA, 0xBB, 1, 0xCC] :: byte list"
  let ?res = "\<lparr>publicKey = [0xAA, 0xBB], chainCode = [0xCC],
               address = ''0x'' @ toString_hex (paddingDigest ([0xAA, 0xBB] @ [0]))\<rparr>"
  have d: "\<forall>message. length (paddingDigest message) = 32" by (simp add: length_paddingDigest)
  have path: "pathToBuffer bip32_fromString ''m/44/637/0/0/0'' = Inr ?pb" by code_simp
  have run: "sendToDevice (mockTransport ?body) [] INS_GET_PUBLIC_KEY
               (if False then P1_CONFIRM else P1_NON_CONFIRM) P2_LAST ?pb
             = ([frame INS_GET_PUBLIC_KEY P1_NON_CONFIRM P2_LAST ?pb], Inr ?body)"
    by (simp add: sendToDevice_refines ApduFramer.simps mockTransport_def throwOnFailure_status statusOf_def)
  have g: "getAddress bip32_fromString paddingDigest (mockTransport ?body) [] ''m/44/637/0/0/0'' False
             = ([frame INS_GET_PUBLIC_KEY P1_NON_CONFIRM P2_LAST ?pb], Inr ?res)"
    using getAddress_result [OF path run, of paddingDigest] by simp
  have hex: "toString_hex (paddingDigest [0xAA, 0xBB, 0])
               = ''aabb000000000000000000000000000000000000000000000000000000000000''"
    by code_simp
  from address_format [OF d g] have "length (address ?res) = 2 + 64" by blast
  then show ?thesis using d g by (simp add: hex)
qed

end
